theory Spec2Isabelle
  imports Main "HOL-Library.Char_ord" "HOL-Library.List_Lexorder" "HOL-Library.Multiset"
begin

section \<open>JavaScript string primitives used by the services\<close>

text \<open>
  Strings are character lists. \<open>startsWith\<close> and \<open>includes_str\<close> are
  \<^verbatim>\<open>String.prototype.startsWith\<close> and \<^verbatim>\<open>String.prototype.includes\<close>;
  \<open>split_on\<close> is \<^verbatim>\<open>String.prototype.split\<close> with a one-character separator
  (it never returns the empty array); \<open>join\<close> is \<^verbatim>\<open>Array.prototype.join\<close>.
\<close>

fun startsWith :: "string \<Rightarrow> string \<Rightarrow> bool" where
  "startsWith s [] = True"
| "startsWith [] (c # t) = False"
| "startsWith (d # s) (c # t) = (d = c \<and> startsWith s t)"

fun includes_str :: "string \<Rightarrow> string \<Rightarrow> bool" where
  "includes_str [] t = startsWith [] t"
| "includes_str (d # s) t = (startsWith (d # s) t \<or> includes_str s t)"

fun split_on :: "char \<Rightarrow> string \<Rightarrow> string list" where
  "split_on c [] = [[]]"
| "split_on c (x # xs) =
     (if x = c then [] # split_on c xs
      else (case split_on c xs of
              [] \<Rightarrow> [[x]]
            | w # ws \<Rightarrow> (x # w) # ws))"

fun join :: "string \<Rightarrow> string list \<Rightarrow> string" where
  "join sep [] = []"
| "join sep [x] = x"
| "join sep (x # y # ys) = x @ sep @ join sep (y # ys)"

section \<open>utils/retry.ts\<close>

text \<open>
  \<^verbatim>\<open>ErrorWithStatus\<close>: a thrown error with an optional status code and an optional
  message (the source reads both with optional chaining).
\<close>

record ErrorWithStatus =
  statusCode :: "int option"
  message :: "string option"

record RetryOptions =
  maxRetries :: int
  retryDelayMs :: int

definition isThrottlingError :: "ErrorWithStatus \<Rightarrow> bool" where
  "isThrottlingError err =
     (statusCode err = Some 429
      \<or> (case message err of None \<Rightarrow> False | Some m \<Rightarrow> includes_str m ''throttled'')
      \<or> (case message err of None \<Rightarrow> False | Some m \<Rightarrow> includes_str m ''Too Many Requests''))"

text \<open>
  What one run of \<^verbatim>\<open>retryWithBackoff\<close> did: how it settled (\<open>Inl\<close> the error it
  threw, \<open>Inr\<close> the value it returned), how many times it invoked the operation, and
  the delays it slept, in order.
\<close>

record 'a RetryRun =
  settled :: "ErrorWithStatus + 'a"
  invocations :: nat
  waits :: "int list"

text \<open>
  The operation \<open>fn\<close> is effectful: its \<open>i\<close>-th invocation (from 0) settles as
  \<open>fn i\<close>. The \<^verbatim>\<open>for\<close> loop of the source runs with loop counter \<open>i\<close>; the
  operation has been invoked \<open>i\<close> times when the iteration starts.
\<close>

function retryLoop ::
  "(nat \<Rightarrow> ErrorWithStatus + 'a) \<Rightarrow> RetryOptions \<Rightarrow> nat \<Rightarrow> int list \<Rightarrow> 'a RetryRun" where
  "retryLoop fn opts i ws =
     (if int i < maxRetries opts then
        (case fn i of
           Inr v \<Rightarrow> \<lparr>settled = Inr v, invocations = Suc i, waits = ws\<rparr>
         | Inl err \<Rightarrow>
             if isThrottlingError err \<and> int i < maxRetries opts - 1
             then retryLoop fn opts (Suc i) (ws @ [retryDelayMs opts * 2 ^ i])
             else \<lparr>settled = Inl err, invocations = Suc i, waits = ws\<rparr>)
      else \<lparr>settled = Inl \<lparr>statusCode = None,
                              message = Some ''Retry logic failed unexpectedly''\<rparr>,
            invocations = i, waits = ws\<rparr>)"
  by pat_completeness auto
termination
  by (relation "measure (\<lambda>(fn, opts, i, ws). nat (maxRetries opts - int i))") auto

declare retryLoop.simps [simp del]

definition retryWithBackoff ::
  "(nat \<Rightarrow> ErrorWithStatus + 'a) \<Rightarrow> RetryOptions \<Rightarrow> 'a RetryRun" where
  "retryWithBackoff fn opts = retryLoop fn opts 0 []"


section \<open>types/index.ts\<close>

record AssignedLicense =
  skuId :: string
  disabledPlans :: "string list option"

record ServicePlan =
  servicePlanId :: string
  servicePlanName :: string
  provisioningStatus :: string

text \<open>\<^verbatim>\<open>LicenseSku\<close>; its \<^verbatim>\<open>skuId\<close> and \<^verbatim>\<open>displayName\<close> carry a prefix here.\<close>

record LicenseSku =
  sku_skuId :: string
  skuPartNumber :: string
  sku_displayName :: string
  servicePlans :: "ServicePlan list"

record MfaMethodFlags =
  emailAuth :: bool
  fido2Auth :: bool
  msAuthenticatorApp :: bool
  msAuthenticatorLite :: bool
  phoneAuth :: bool
  softwareOath :: bool
  temporaryAccessPass :: bool
  windowsHello :: bool

datatype MfaStatus = Enabled | Disabled | Unknown

record MfaInfo = MfaMethodFlags +
  defaultMethod :: string
  mfaStatus :: MfaStatus

text \<open>\<^verbatim>\<open>SecurityGroupInfo\<close>; \<^verbatim>\<open>count\<close> is \<open>count_grp\<close> here.\<close>

record SecurityGroupInfo =
  groups :: "string list"
  count_grp :: nat

record LicenseDetails =
  licenseSkus :: "string list"
  licenseCount :: nat
  licenseServicePlans :: "string list"

record Manager =
  mgr_displayName :: "string option"
  mgr_userPrincipalName :: "string option"

record SignInActivity =
  lastSuccessfulSignInDateTime :: "string option"

text \<open>\<^verbatim>\<open>GraphUser\<close>: every optional property is an option; \<^verbatim>\<open>id\<close> is \<open>user_id\<close>.\<close>

record GraphUser =
  user_id :: string
  givenName :: "string option"
  surname :: "string option"
  displayName :: "string option"
  userPrincipalName :: "string option"
  mail :: "string option"
  jobTitle :: "string option"
  department :: "string option"
  companyName :: "string option"
  officeLocation :: "string option"
  employeeId :: "string option"
  mobilePhone :: "string option"
  businessPhones :: "string list option"
  streetAddress :: "string option"
  city :: "string option"
  postalCode :: "string option"
  state :: "string option"
  country :: "string option"
  userType :: "string option"
  onPremisesSyncEnabled :: "bool option"
  accountEnabled :: "bool option"
  createdDateTime :: "string option"
  assignedLicenses :: "AssignedLicense list option"
  signInActivity :: "SignInActivity option"
  manager :: "Manager option"

text \<open>
  \<^verbatim>\<open>ProcessedUserRecord\<close>: the keys of the source with \<open>_\<close> for the space and the
  hyphen. \<open>None\<close> is \<^verbatim>\<open>undefined\<close> or \<^verbatim>\<open>null\<close>.
\<close>

record ProcessedUserRecord =
  ID :: string
  First_name :: "string option"
  Last_name :: "string option"
  Display_name :: "string option"
  User_principal_name :: "string option"
  Domain_name :: "string option"
  Email_address :: "string option"
  Job_title :: "string option"
  Manager_display_name :: "string option"
  Manager_user_principal_name :: "string option"
  Department :: "string option"
  Company :: "string option"
  Office :: "string option"
  Employee_ID :: "string option"
  Mobile :: "string option"
  Phone :: "string option"
  Street :: "string option"
  City :: "string option"
  Postal_code :: "string option"
  State :: "string option"
  Country :: "string option"
  User_type :: "string option"
  On_Premises_sync :: string
  Account_status :: string
  Account_Created_on :: "string option"
  Last_successful_sign_in :: string
  Licensed :: string
  DefaultMFAMethod :: string
  MFA_status :: MfaStatus
  Email_authentication :: bool
  FIDO2_authentication :: bool
  Microsoft_Authenticator_App :: bool
  Microsoft_Authenticator_Lite :: bool
  Phone_authentication :: bool
  Software_Oath :: bool
  Temporary_Access_Pass :: bool
  Windows_Hello_for_Business :: bool
  Security_Groups :: string
  Security_Group_Count :: nat
  License_SKUs :: string
  License_Count :: nat
  Enabled_Service_Plans :: string

record BatchRequestItem =
  req_id :: string
  req_method :: string
  url :: string

record BatchRequest =
  requests :: "BatchRequestItem list"

text \<open>
  One registered authentication method of the methods listing: the two properties
  \<^verbatim>\<open>getUserMfaInfo\<close> reads, \<^verbatim>\<open>'@odata.type'\<close> and \<^verbatim>\<open>deviceTag\<close>.
\<close>

record AuthMethod =
  odata_type :: "string option"
  deviceTag :: "string option"

text \<open>
  The body of a batch response item is \<^verbatim>\<open>any\<close> in the source. The model keeps the two
  properties that are read from it: \<^verbatim>\<open>value\<close> (\<open>None\<close> when it is missing or is
  no array) and \<^verbatim>\<open>userPreferredMethodForSecondaryAuthentication\<close>.
\<close>

record ResponseBody =
  body_value :: "AuthMethod list option"
  userPreferredMethodForSecondaryAuthentication :: "string option"

record BatchResponseItem =
  resp_id :: string
  status :: int
  body :: "ResponseBody option"

record BatchResponse =
  responses :: "BatchResponseItem list"

record ProcessingStats =
  totalUsers :: nat
  processed :: nat
  errors :: nat
  startTime :: "int option"


section \<open>services/batchService.ts\<close>

text \<open>\<^verbatim>\<open>String(n)\<close> for a non-negative integer: its decimal digits.\<close>

fun String_of_nat :: "nat \<Rightarrow> string" where
  "String_of_nat n =
     (if n < 10 then [char_of (48 + n)]
      else String_of_nat (n div 10) @ [char_of (48 + n mod 10)])"

definition createBatchRequest :: "string list \<Rightarrow> BatchRequest" where
  "createBatchRequest urls =
     \<lparr>requests = map (\<lambda>(u, index). \<lparr>req_id = String_of_nat (index + 1), req_method = ''GET'', url = u\<rparr>)
                       (zip urls [0..<length urls])\<rparr>"

text \<open>
  \<open>post\<close> is \<^verbatim>\<open>client.api('/$batch').post\<close>: \<open>post req i\<close> is how its \<open>i\<close>-th
  invocation on the request settles. \<^verbatim>\<open>executeBatch\<close> catches whatever the retry loop
  throws and resolves to an empty response list; the result type keeps the shape of a
  promise (\<open>Inl\<close> a rejection), and this function never produces \<open>Inl\<close>.
\<close>

definition executeBatch ::
  "(BatchRequest \<Rightarrow> nat \<Rightarrow> ErrorWithStatus + BatchResponse) \<Rightarrow> RetryOptions \<Rightarrow>
   BatchRequest \<Rightarrow> ErrorWithStatus + BatchResponse" where
  "executeBatch post retryOptions batchRequest =
     (case settled (retryWithBackoff (post batchRequest) retryOptions) of
        Inr response \<Rightarrow> Inr response
      | Inl err \<Rightarrow> Inr \<lparr>responses = []\<rparr>)"

section \<open>services/mfaService.ts\<close>

definition TypeError :: "string \<Rightarrow> ErrorWithStatus" where
  "TypeError msg = \<lparr>statusCode = None, message = Some msg\<rparr>"

definition noMethodFlags :: MfaMethodFlags where
  "noMethodFlags =
     \<lparr>emailAuth = False, fido2Auth = False, msAuthenticatorApp = False,
      msAuthenticatorLite = False, phoneAuth = False, softwareOath = False,
      temporaryAccessPass = False, windowsHello = False\<rparr>"

text \<open>The body of the \<^verbatim>\<open>forEach\<close> callback, on the pair (methodFlags, mfaStatus).\<close>

definition applyMethod :: "AuthMethod \<Rightarrow> MfaMethodFlags \<times> MfaStatus \<Rightarrow> MfaMethodFlags \<times> MfaStatus" where
  "applyMethod m acc =
     (let methodFlags = fst acc; odataType = odata_type m in
      if odataType = Some ''#microsoft.graph.emailAuthenticationMethod''
        then (methodFlags\<lparr>emailAuth := True\<rparr>, Enabled)
      else if odataType = Some ''#microsoft.graph.fido2AuthenticationMethod''
        then (methodFlags\<lparr>fido2Auth := True\<rparr>, Enabled)
      else if odataType = Some ''#microsoft.graph.microsoftAuthenticatorAuthenticationMethod''
        then (if deviceTag m = Some ''SoftwareTokenActivated''
              then (methodFlags\<lparr>msAuthenticatorApp := True\<rparr>, Enabled)
              else (methodFlags\<lparr>msAuthenticatorLite := True\<rparr>, Enabled))
      else if odataType = Some ''#microsoft.graph.phoneAuthenticationMethod''
        then (methodFlags\<lparr>phoneAuth := True\<rparr>, Enabled)
      else if odataType = Some ''#microsoft.graph.softwareOathAuthenticationMethod''
        then (methodFlags\<lparr>softwareOath := True\<rparr>, Enabled)
      else if odataType = Some ''#microsoft.graph.temporaryAccessPassAuthenticationMethod''
        then (methodFlags\<lparr>temporaryAccessPass := True\<rparr>, Enabled)
      else if odataType = Some ''#microsoft.graph.windowsHelloForBusinessAuthenticationMethod''
        then (methodFlags\<lparr>windowsHello := True\<rparr>, Enabled)
      else acc)"

text \<open>\<^verbatim>\<open>xs[i]\<close>: \<^verbatim>\<open>undefined\<close> (\<open>None\<close>) out of range.\<close>

definition at_index :: "'a list \<Rightarrow> nat \<Rightarrow> 'a option" where
  "at_index xs i = (if i < length xs then Some (xs ! i) else None)"

text \<open>\<^verbatim>\<open>s || d\<close> on an optional string: the empty string is falsy too.\<close>

definition or_default :: "string option \<Rightarrow> string \<Rightarrow> string" where
  "or_default s d = (case s of None \<Rightarrow> d | Some v \<Rightarrow> if v = [] then d else v)"

text \<open>
  The statements of the \<^verbatim>\<open>try\<close> block after the batch response has arrived. Reading a
  property of \<^verbatim>\<open>undefined\<close> and calling \<^verbatim>\<open>forEach\<close> on what is no array throw a
  TypeError, in the order of the source.
\<close>

definition mfaFromResponse :: "BatchResponse \<Rightarrow> ErrorWithStatus + MfaInfo" where
  "mfaFromResponse response =
     (case (case at_index (responses response) 0 of
              None \<Rightarrow> Inr (Some [])
            | Some r0 \<Rightarrow>
                if status r0 = 200
                then (case body r0 of
                        None \<Rightarrow> Inl (TypeError ''Cannot read properties of undefined'')
                      | Some b \<Rightarrow> Inr (body_value b))
                else Inr (Some [])) of
        Inl err \<Rightarrow> Inl err
      | Inr mfaMethods \<Rightarrow>
          (let mfaPreference =
                 (case at_index (responses response) 1 of
                    None \<Rightarrow> Some \<lparr>body_value = None,
                                  userPreferredMethodForSecondaryAuthentication = None\<rparr>
                  | Some r1 \<Rightarrow>
                      if status r1 = 200 then body r1
                      else Some \<lparr>body_value = None,
                                 userPreferredMethodForSecondaryAuthentication = None\<rparr>)
           in case mfaMethods of
                None \<Rightarrow> Inl (TypeError ''mfaMethods.forEach is not a function'')
              | Some ms \<Rightarrow>
                  (let acc = fold applyMethod ms (noMethodFlags, Disabled) in
                   case mfaPreference of
                     None \<Rightarrow> Inl (TypeError ''Cannot read properties of undefined'')
                   | Some pref \<Rightarrow>
                       Inr (MfaMethodFlags.extend (fst acc)
                              (MfaInfo.fields
                                 (or_default (userPreferredMethodForSecondaryAuthentication pref)
                                    ''Not set'')
                                 (snd acc))))))"

text \<open>The value returned by the \<^verbatim>\<open>catch\<close> block.\<close>

definition mfaErrorInfo :: MfaInfo where
  "mfaErrorInfo =
     \<lparr>emailAuth = False, fido2Auth = False, msAuthenticatorApp = False,
      msAuthenticatorLite = False, phoneAuth = False, softwareOath = False,
      temporaryAccessPass = False, windowsHello = False,
      defaultMethod = ''Error'', mfaStatus = Unknown\<rparr>"

text \<open>
  \<open>exec\<close> is the \<^verbatim>\<open>executeBatch\<close> of the injected batch service. The promise returned
  by \<^verbatim>\<open>getUserMfaInfo\<close> always resolves, so the result is a plain \<open>MfaInfo\<close>.
\<close>

definition getUserMfaInfo ::
  "(BatchRequest \<Rightarrow> ErrorWithStatus + BatchResponse) \<Rightarrow> string \<Rightarrow> MfaInfo" where
  "getUserMfaInfo exec userId =
     (let batchRequest = createBatchRequest
            [''/users/'' @ userId @ ''/authentication/methods'',
             ''/users/'' @ userId @ ''/authentication/signInPreferences'']
      in case exec batchRequest of
           Inl err \<Rightarrow> mfaErrorInfo
         | Inr response \<Rightarrow>
             (case mfaFromResponse response of
                Inl err \<Rightarrow> mfaErrorInfo
              | Inr info \<Rightarrow> info))"

section \<open>services/groupService.ts\<close>

text \<open>
  A member of the \<^verbatim>\<open>memberOf\<close> listing: \<^verbatim>\<open>'@odata.type'\<close>, \<^verbatim>\<open>securityEnabled\<close>
  (tested for truthiness) and \<^verbatim>\<open>displayName\<close>.
\<close>

record DirectoryObject =
  member_odata_type :: "string option"
  securityEnabled :: "bool option"
  member_displayName :: string

record MemberOfResponse =
  memberOf_value :: "DirectoryObject list option"

definition isSecurityGroup :: "DirectoryObject \<Rightarrow> bool" where
  "isSecurityGroup g =
     (member_odata_type g = Some ''#microsoft.graph.group'' \<and> securityEnabled g = Some True)"

text \<open>
  \<open>get\<close> is \<^verbatim>\<open>client.api(path).get\<close>, by path and invocation. A response without a
  \<^verbatim>\<open>value\<close> array makes \<^verbatim>\<open>response.value.filter\<close> throw inside the \<^verbatim>\<open>try\<close>.
\<close>

definition getUserSecurityGroups ::
  "(string \<Rightarrow> nat \<Rightarrow> ErrorWithStatus + MemberOfResponse) \<Rightarrow> RetryOptions \<Rightarrow> string \<Rightarrow>
   SecurityGroupInfo" where
  "getUserSecurityGroups get retryOptions userId =
     (case settled (retryWithBackoff (get (''/users/'' @ userId @ ''/memberOf'')) retryOptions) of
        Inl err \<Rightarrow> \<lparr>groups = [], count_grp = 0\<rparr>
      | Inr response \<Rightarrow>
          (case memberOf_value response of
             None \<Rightarrow> \<lparr>groups = [], count_grp = 0\<rparr>
           | Some members \<Rightarrow>
               (let securityGroups = filter isSecurityGroup members in
                \<lparr>groups = sort (map member_displayName securityGroups),
                 count_grp = length securityGroups\<rparr>)))"

section \<open>services/licenseService.ts\<close>

text \<open>\<^verbatim>\<open>Set.prototype.add\<close> on a set kept as the list of its members in insertion order.\<close>

definition set_add :: "string \<Rightarrow> string list \<Rightarrow> string list" where
  "set_add x xs = (if x \<in> set xs then xs else xs @ [x])"

text \<open>The inner \<^verbatim>\<open>forEach\<close> over the service plans of a known SKU.\<close>

definition addEnabledPlan :: "string list \<Rightarrow> ServicePlan \<Rightarrow> string list \<Rightarrow> string list" where
  "addEnabledPlan disabled plan allServicePlans =
     (if servicePlanId plan \<notin> set disabled \<and> provisioningStatus plan = ''Success''
      then set_add (servicePlanName plan) allServicePlans
      else allServicePlans)"

text \<open>The outer \<^verbatim>\<open>forEach\<close>, on the pair (licenseNames, allServicePlans).\<close>

definition addLicense ::
  "(string \<rightharpoonup> LicenseSku) \<Rightarrow> AssignedLicense \<Rightarrow> string list \<times> string list \<Rightarrow>
   string list \<times> string list" where
  "addLicense licenseSkuMap license acc =
     (case licenseSkuMap (skuId license) of
        Some skuInfo \<Rightarrow>
          (fst acc @ [sku_displayName skuInfo],
           fold (addEnabledPlan (case disabledPlans license of None \<Rightarrow> [] | Some d \<Rightarrow> d))
                (servicePlans skuInfo) (snd acc))
      | None \<Rightarrow> (fst acc @ [skuId license], snd acc))"

definition getUserLicenseDetails ::
  "(string \<rightharpoonup> LicenseSku) \<Rightarrow> AssignedLicense list option \<Rightarrow> LicenseDetails" where
  "getUserLicenseDetails licenseSkuMap assigned =
     (case assigned of
        None \<Rightarrow> \<lparr>licenseSkus = [], licenseCount = 0, licenseServicePlans = []\<rparr>
      | Some licenses \<Rightarrow>
          if length licenses = 0
          then \<lparr>licenseSkus = [], licenseCount = 0, licenseServicePlans = []\<rparr>
          else (let acc = fold (addLicense licenseSkuMap) licenses ([], []) in
                \<lparr>licenseSkus = sort (fold set_add (fst acc) []),
                 licenseCount = length licenses,
                 licenseServicePlans = sort (snd acc)\<rparr>))"


section \<open>services/userProcessor.ts\<close>

text \<open>\<^verbatim>\<open>s || null\<close> on an optional string.\<close>

definition or_null :: "string option \<Rightarrow> string option" where
  "or_null s = (case s of None \<Rightarrow> None | Some v \<Rightarrow> if v = [] then None else Some v)"

text \<open>
  \<^verbatim>\<open>processUser\<close>. The two injected lookups are \<open>mfaLookup\<close> (\<^verbatim>\<open>mfaService.getUserMfaInfo\<close>)
  and \<open>groupLookup\<close> (\<^verbatim>\<open>groupService.getUserSecurityGroups\<close>), each giving how its promise
  settles for a user id (\<open>Inl\<close> a rejection); \<^verbatim>\<open>Promise.all\<close> rejects when either does,
  and the \<^verbatim>\<open>catch\<close> block counts the error and returns \<^verbatim>\<open>null\<close> (\<open>None\<close>). The shared
  \<^verbatim>\<open>this.stats\<close> is passed in and returned.
\<close>

definition processUser ::
  "(string \<Rightarrow> ErrorWithStatus + MfaInfo) \<Rightarrow> (string \<Rightarrow> ErrorWithStatus + SecurityGroupInfo) \<Rightarrow>
   (string \<rightharpoonup> LicenseSku) \<Rightarrow> GraphUser \<Rightarrow> bool \<Rightarrow> ProcessingStats \<Rightarrow>
   ProcessingStats \<times> ProcessedUserRecord option" where
  "processUser mfaLookup groupLookup licenseSkuMap user hasPremium stats =
     (case mfaLookup (user_id user) of
        Inl err \<Rightarrow> (stats\<lparr>errors := errors stats + 1\<rparr>, None)
      | Inr mfaInfo \<Rightarrow>
     (case groupLookup (user_id user) of
        Inl err \<Rightarrow> (stats\<lparr>errors := errors stats + 1\<rparr>, None)
      | Inr securityGroups \<Rightarrow>
     (let licenseDetails = getUserLicenseDetails licenseSkuMap (assignedLicenses user);
          domainName =
            (case userPrincipalName user of
               None \<Rightarrow> None
             | Some upn \<Rightarrow>
                 if includes_str upn ''@'' then at_index (split_on CHR ''@'' upn) 1 else None);
          managerDisplayName =
            (case manager user of None \<Rightarrow> None | Some m \<Rightarrow> or_null (mgr_displayName m));
          managerUserPrincipalName =
            (case manager user of None \<Rightarrow> None | Some m \<Rightarrow> or_null (mgr_userPrincipalName m));
          signIn =
            or_null (case signInActivity user of
                       None \<Rightarrow> None
                     | Some a \<Rightarrow> lastSuccessfulSignInDateTime a);
          lastSignIn =
            (case (if hasPremium then signIn else None) of
               Some t \<Rightarrow> t
             | None \<Rightarrow>
                 if hasPremium then ''No sign in''
                 else ''No Microsoft Entra ID Premium license'')
      in (stats\<lparr>processed := processed stats + 1\<rparr>,
          Some \<lparr>ID = user_id user,
                First_name = givenName user,
                Last_name = surname user,
                Display_name = displayName user,
                User_principal_name = userPrincipalName user,
                Domain_name = domainName,
                Email_address = mail user,
                Job_title = jobTitle user,
                Manager_display_name = managerDisplayName,
                Manager_user_principal_name = managerUserPrincipalName,
                Department = department user,
                Company = companyName user,
                Office = officeLocation user,
                Employee_ID = employeeId user,
                Mobile = mobilePhone user,
                Phone = map_option (join '','') (businessPhones user),
                Street = streetAddress user,
                City = city user,
                Postal_code = postalCode user,
                State = state user,
                Country = country user,
                User_type = userType user,
                On_Premises_sync =
                  (if onPremisesSyncEnabled user = Some True then ''enabled'' else ''disabled''),
                Account_status =
                  (if accountEnabled user = Some True then ''enabled'' else ''disabled''),
                Account_Created_on = createdDateTime user,
                Last_successful_sign_in = lastSignIn,
                Licensed =
                  (case assignedLicenses user of
                     None \<Rightarrow> ''No''
                   | Some ls \<Rightarrow> if length ls > 0 then ''Yes'' else ''No''),
                DefaultMFAMethod = defaultMethod mfaInfo,
                MFA_status = mfaStatus mfaInfo,
                Email_authentication = emailAuth mfaInfo,
                FIDO2_authentication = fido2Auth mfaInfo,
                Microsoft_Authenticator_App = msAuthenticatorApp mfaInfo,
                Microsoft_Authenticator_Lite = msAuthenticatorLite mfaInfo,
                Phone_authentication = phoneAuth mfaInfo,
                Software_Oath = softwareOath mfaInfo,
                Temporary_Access_Pass = temporaryAccessPass mfaInfo,
                Windows_Hello_for_Business = windowsHello mfaInfo,
                Security_Groups = join ''; '' (groups securityGroups),
                Security_Group_Count = count_grp securityGroups,
                License_SKUs = join ''; '' (licenseSkus licenseDetails),
                License_Count = licenseCount licenseDetails,
                Enabled_Service_Plans = join ''; '' (licenseServicePlans licenseDetails)\<rparr>))))"

text \<open>
  \<^verbatim>\<open>processAllUsers\<close>. Every user gets one task \<^verbatim>\<open>limit(() => processUser(user))\<close>, and
  \<^verbatim>\<open>Promise.all\<close> stores each task's outcome in the slot of its index. The part of a
  task after its single \<^verbatim>\<open>await\<close> (counting and building the record) runs without
  interruption on the one JavaScript thread, so a run is determined by the order in which
  the tasks pass that point: \<open>order\<close>, the list of task indices in completion order.
  The limiter of the third-party package p-limit decides only when a task starts.
  \<open>settleTask\<close> is one task completing; a slot is \<open>None\<close> while its task is pending.
  The progress ticker only reads the counters and prints; \<open>now\<close> is \<^verbatim>\<open>Date.now()\<close>.
\<close>

definition settleTask ::
  "(string \<Rightarrow> ErrorWithStatus + MfaInfo) \<Rightarrow> (string \<Rightarrow> ErrorWithStatus + SecurityGroupInfo) \<Rightarrow>
   (string \<rightharpoonup> LicenseSku) \<Rightarrow> GraphUser list \<Rightarrow> bool \<Rightarrow> nat \<Rightarrow>
   ProcessingStats \<times> ProcessedUserRecord option option list \<Rightarrow>
   ProcessingStats \<times> ProcessedUserRecord option option list" where
  "settleTask mfaLookup groupLookup licenseSkuMap users hasPremium i run =
     (if i < length users then
        (let outcome = processUser mfaLookup groupLookup licenseSkuMap (users ! i) hasPremium (fst run)
         in (fst outcome, (snd run)[i := Some (snd outcome)]))
      else run)"

definition processAllUsers ::
  "(string \<Rightarrow> ErrorWithStatus + MfaInfo) \<Rightarrow> (string \<Rightarrow> ErrorWithStatus + SecurityGroupInfo) \<Rightarrow>
   (string \<rightharpoonup> LicenseSku) \<Rightarrow> nat list \<Rightarrow> int \<Rightarrow> GraphUser list \<Rightarrow> bool \<Rightarrow> ProcessingStats \<Rightarrow>
   ProcessingStats \<times> ProcessedUserRecord list" where
  "processAllUsers mfaLookup groupLookup licenseSkuMap order now users hasPremium stats =
     (let started = stats\<lparr>totalUsers := length users, processed := 0, errors := 0,
                          startTime := Some now\<rparr>;
          run = fold (settleTask mfaLookup groupLookup licenseSkuMap users hasPremium) order
                     (started, replicate (length users) None)
      in (fst run, List.map_filter (\<lambda>slot. case slot of None \<Rightarrow> None | Some r \<Rightarrow> r) (snd run)))"


section \<open>Vocabulary of the statements\<close>

text \<open>The \<open>j\<close>-th invocation of the operation failed with a throttling error.\<close>

definition throttledAt :: "(nat \<Rightarrow> ErrorWithStatus + 'a) \<Rightarrow> nat \<Rightarrow> bool" where
  "throttledAt fn j = (case fn j of Inl e \<Rightarrow> isThrottlingError e | Inr v \<Rightarrow> False)"

text \<open>The delays slept before invocations \<open>1, \<dots>, i\<close>: \<open>retryDelayMs * 2 ^ j\<close> after invocation \<open>j\<close>.\<close>

definition backoffDelays :: "RetryOptions \<Rightarrow> nat \<Rightarrow> int list" where
  "backoffDelays opts i = map (\<lambda>j. retryDelayMs opts * 2 ^ j) [0..<i]"

text \<open>The assigned licenses of a user, empty when the property is missing.\<close>

definition assignedList :: "AssignedLicense list option \<Rightarrow> AssignedLicense list" where
  "assignedList assigned = (case assigned of None \<Rightarrow> [] | Some ls \<Rightarrow> ls)"

text \<open>The display name an assignment contributes: the raw SKU id when the catalog lacks it.\<close>

definition licenseName :: "(string \<rightharpoonup> LicenseSku) \<Rightarrow> AssignedLicense \<Rightarrow> string" where
  "licenseName licenseSkuMap a =
     (case licenseSkuMap (skuId a) of None \<Rightarrow> skuId a | Some sku \<Rightarrow> sku_displayName sku)"

text \<open>
  The service-plan names an assignment contributes: the plans of its SKU that are not in
  the assignment's disabled list and whose provisioning status is \<open>Success\<close>.
\<close>

definition enabledPlanNames :: "(string \<rightharpoonup> LicenseSku) \<Rightarrow> AssignedLicense \<Rightarrow> string set" where
  "enabledPlanNames licenseSkuMap a =
     (case licenseSkuMap (skuId a) of
        None \<Rightarrow> {}
      | Some sku \<Rightarrow>
          servicePlanName `
            {p \<in> set (servicePlans sku).
               servicePlanId p \<notin> set (case disabledPlans a of None \<Rightarrow> [] | Some d \<Rightarrow> d)
               \<and> provisioningStatus p = ''Success''})"

text \<open>The batch request \<^verbatim>\<open>getUserMfaInfo\<close> builds for a user.\<close>

definition mfaRequest :: "string \<Rightarrow> BatchRequest" where
  "mfaRequest userId = createBatchRequest
     [''/users/'' @ userId @ ''/authentication/methods'',
      ''/users/'' @ userId @ ''/authentication/signInPreferences'']"

text \<open>What \<^verbatim>\<open>getUserMfaInfo\<close> returns when neither half of the batch carries data.\<close>

definition mfaNoDataInfo :: MfaInfo where
  "mfaNoDataInfo =
     \<lparr>emailAuth = False, fido2Auth = False, msAuthenticatorApp = False,
      msAuthenticatorLite = False, phoneAuth = False, softwareOath = False,
      temporaryAccessPass = False, windowsHello = False,
      defaultMethod = ''Not set'', mfaStatus = Disabled\<rparr>"

text \<open>The path \<^verbatim>\<open>getUserSecurityGroups\<close> requests for a user.\<close>

definition memberOfPath :: "string \<Rightarrow> string" where
  "memberOfPath userId = ''/users/'' @ userId @ ''/memberOf''"

text \<open>A user's enrichment fails when one of the two injected lookups rejects.\<close>

definition enrichmentFails ::
  "(string \<Rightarrow> ErrorWithStatus + MfaInfo) \<Rightarrow> (string \<Rightarrow> ErrorWithStatus + SecurityGroupInfo) \<Rightarrow>
   GraphUser \<Rightarrow> bool" where
  "enrichmentFails mfaLookup groupLookup user =
     (isl (mfaLookup (user_id user)) \<or> isl (groupLookup (user_id user)))"

text \<open>
  The outcome of \<open>processUser\<close> for one user taken alone, from fresh counters: its
  record, or \<open>None\<close>.
\<close>

definition recordOf ::
  "(string \<Rightarrow> ErrorWithStatus + MfaInfo) \<Rightarrow> (string \<Rightarrow> ErrorWithStatus + SecurityGroupInfo) \<Rightarrow>
   (string \<rightharpoonup> LicenseSku) \<Rightarrow> bool \<Rightarrow> GraphUser \<Rightarrow> ProcessedUserRecord option" where
  "recordOf mfaLookup groupLookup licenseSkuMap hasPremium user =
     snd (processUser mfaLookup groupLookup licenseSkuMap user hasPremium
            \<lparr>totalUsers = 0, processed = 0, errors = 0, startTime = None\<rparr>)"

text \<open>The last-successful-sign-in timestamp property of a user, if it is there.\<close>

definition signInTimestamp :: "GraphUser \<Rightarrow> string option" where
  "signInTimestamp user =
     (case signInActivity user of None \<Rightarrow> None | Some a \<Rightarrow> lastSuccessfulSignInDateTime a)"

text \<open>The substring of a principal name after its first \<open>@\<close>, and after its last.\<close>

definition afterAt :: "string \<Rightarrow> string" where
  "afterAt upn = tl (dropWhile (\<lambda>c. c \<noteq> CHR ''@'') upn)"

definition afterLastAt :: "string \<Rightarrow> string" where
  "afterLastAt upn = rev (takeWhile (\<lambda>c. c \<noteq> CHR ''@'') (rev upn))"

text \<open>A user with an id, a principal name and a sign-in activity, every other property absent.\<close>

definition exampleUser :: "string \<Rightarrow> string \<Rightarrow> SignInActivity option \<Rightarrow> GraphUser" where
  "exampleUser uid upn activity =
     \<lparr>user_id = uid, givenName = None, surname = None, displayName = None,
      userPrincipalName = Some upn, mail = None, jobTitle = None, department = None,
      companyName = None, officeLocation = None, employeeId = None, mobilePhone = None,
      businessPhones = None, streetAddress = None, city = None, postalCode = None,
      state = None, country = None, userType = None, onPremisesSyncEnabled = None,
      accountEnabled = None, createdDateTime = None, assignedLicenses = None,
      signInActivity = activity, manager = None\<rparr>"

section \<open>The retry policy\<close>

lemma startsWith_iff: "startsWith s t \<longleftrightarrow> (\<exists>q. s = t @ q)"
  by (induction s t rule: startsWith.induct) auto

lemma includes_str_iff: "includes_str s t \<longleftrightarrow> (\<exists>p q. s = p @ t @ q)"
proof (induction s)
  case Nil
  show ?case by (auto simp: startsWith_iff)
next
  case (Cons d s)
  show ?case
  proof
    assume "includes_str (d # s) t"
    then consider "startsWith (d # s) t" | "includes_str s t" by auto
    then show "\<exists>p q. d # s = p @ t @ q"
    proof cases
      case 1
      then obtain q where "d # s = t @ q" by (auto simp: startsWith_iff)
      then have "d # s = [] @ t @ q" by simp
      then show ?thesis by blast
    next
      case 2
      then obtain p q where "s = p @ t @ q" using Cons.IH by blast
      then have "d # s = (d # p) @ t @ q" by simp
      then show ?thesis by blast
    qed
  next
    assume "\<exists>p q. d # s = p @ t @ q"
    then obtain p q where pq: "d # s = p @ t @ q" by blast
    show "includes_str (d # s) t"
    proof (cases p)
      case Nil
      then have "startsWith (d # s) t" using pq startsWith_iff by auto
      then show ?thesis by simp
    next
      case (Cons e p')
      then have "s = p' @ t @ q" using pq by simp
      then have "includes_str s t" using Cons.IH by blast
      then show ?thesis by simp
    qed
  qed
qed

lemma isThrottlingError_iff:
  "isThrottlingError e \<longleftrightarrow>
     statusCode e = Some 429
     \<or> (\<exists>m. message e = Some m \<and> (includes_str m ''throttled'' \<or> includes_str m ''Too Many Requests''))"
  by (cases "message e") (auto simp: isThrottlingError_def)

text \<open>While every invocation so far was throttled and attempts remain, the loop goes on.\<close>

lemma retryLoop_skip:
  assumes "int i < maxRetries opts" and "\<forall>j<i. throttledAt fn j"
  shows "retryLoop fn opts 0 [] = retryLoop fn opts i (backoffDelays opts i)"
  using assms
proof (induction i)
  case 0
  show ?case by (simp add: backoffDelays_def)
next
  case (Suc i)
  have lt: "int i < maxRetries opts - 1" using Suc.prems(1) by simp
  have thr: "throttledAt fn i" using Suc.prems(2) by simp
  have "retryLoop fn opts 0 [] = retryLoop fn opts i (backoffDelays opts i)"
    using Suc by simp
  also have "\<dots> = retryLoop fn opts (Suc i) (backoffDelays opts i @ [retryDelayMs opts * 2 ^ i])"
    using lt thr by (subst retryLoop.simps) (simp add: throttledAt_def split: sum.splits)
  also have "backoffDelays opts i @ [retryDelayMs opts * 2 ^ i] = backoffDelays opts (Suc i)"
    by (simp add: backoffDelays_def)
  finally show ?case .
qed

lemma retry_nonthrottling:
  assumes "int i < maxRetries opts" and "\<forall>j<i. throttledAt fn j"
    and "fn i = Inl err" and "\<not> isThrottlingError err"
  shows "retryWithBackoff fn opts =
           \<lparr>settled = Inl err, invocations = Suc i, waits = backoffDelays opts i\<rparr>"
  unfolding retryWithBackoff_def retryLoop_skip [OF assms(1,2)]
  using assms(1,3,4) by (subst retryLoop.simps) simp

lemma retry_success:
  assumes "int i < maxRetries opts" and "\<forall>j<i. throttledAt fn j"
    and "fn i = Inr v"
  shows "retryWithBackoff fn opts =
           \<lparr>settled = Inr v, invocations = Suc i, waits = backoffDelays opts i\<rparr>"
  unfolding retryWithBackoff_def retryLoop_skip [OF assms(1,2)]
  using assms(1,3) by (subst retryLoop.simps) simp

lemma retry_exhausted:
  assumes "int i = maxRetries opts - 1" and "\<forall>j<i. throttledAt fn j"
    and "fn i = Inl err"
  shows "retryWithBackoff fn opts =
           \<lparr>settled = Inl err, invocations = Suc i, waits = backoffDelays opts i\<rparr>"
proof -
  have lt: "int i < maxRetries opts" using assms(1) by simp
  show ?thesis
    unfolding retryWithBackoff_def retryLoop_skip [OF lt assms(2)]
    using assms(1,3) by (subst retryLoop.simps) simp
qed

lemma retryLoop_invokes:
  "int i < maxRetries opts \<Longrightarrow> Suc i \<le> invocations (retryLoop fn opts i ws)"
proof (induction fn opts i ws rule: retryLoop.induct)
  case (1 fn opts i ws)
  show ?case
  proof (cases "fn i")
    case (Inr v)
    then show ?thesis using "1.prems" by (subst retryLoop.simps) simp
  next
    case (Inl err)
    show ?thesis
    proof (cases "isThrottlingError err \<and> int i < maxRetries opts - 1")
      case False
      then show ?thesis using "1.prems" Inl by (subst retryLoop.simps) auto
    next
      case True
      then have "int (Suc i) < maxRetries opts" by simp
      then have "Suc (Suc i) \<le> invocations (retryLoop fn opts (Suc i) (ws @ [retryDelayMs opts * 2 ^ i]))"
        using "1.IH" [OF "1.prems" Inl True] by simp
      then show ?thesis using "1.prems" Inl True by (subst retryLoop.simps) simp
    qed
  qed
qed

lemma retryLoop_waits_prefix:
  "\<exists>ws'. waits (retryLoop fn opts i ws) = ws @ ws'"
proof (induction fn opts i ws rule: retryLoop.induct)
  case (1 fn opts i ws)
  show ?case
  proof (cases "int i < maxRetries opts")
    case False
    then show ?thesis by (subst retryLoop.simps) simp
  next
    case lt: True
    show ?thesis
    proof (cases "fn i")
      case (Inr v)
      then show ?thesis using lt by (subst retryLoop.simps) simp
    next
      case (Inl err)
      show ?thesis
      proof (cases "isThrottlingError err \<and> int i < maxRetries opts - 1")
        case False
        then show ?thesis using lt Inl by (subst retryLoop.simps) auto
      next
        case True
        obtain ws' where
          "waits (retryLoop fn opts (Suc i) (ws @ [retryDelayMs opts * 2 ^ i]))
             = (ws @ [retryDelayMs opts * 2 ^ i]) @ ws'"
          using "1.IH" [OF lt Inl True] by blast
        then show ?thesis using lt Inl True by (subst retryLoop.simps) simp
      qed
    qed
  qed
qed

lemma retry_throttled_waits:
  assumes "int i < maxRetries opts - 1" and "\<forall>j\<le>i. throttledAt fn j"
  shows "Suc (Suc i) \<le> invocations (retryWithBackoff fn opts)
         \<and> i < length (waits (retryWithBackoff fn opts))
         \<and> waits (retryWithBackoff fn opts) ! i = retryDelayMs opts * 2 ^ i"
proof -
  have lt: "int (Suc i) < maxRetries opts" using assms(1) by simp
  have thr: "\<forall>j<Suc i. throttledAt fn j" using assms(2) by (simp add: less_Suc_eq_le)
  have run: "retryWithBackoff fn opts = retryLoop fn opts (Suc i) (backoffDelays opts (Suc i))"
    unfolding retryWithBackoff_def by (rule retryLoop_skip [OF lt thr])
  obtain ws' where ws': "waits (retryWithBackoff fn opts) = backoffDelays opts (Suc i) @ ws'"
    unfolding run using retryLoop_waits_prefix by blast
  have len: "length (backoffDelays opts (Suc i)) = Suc i" by (simp add: backoffDelays_def)
  have "backoffDelays opts (Suc i) ! i = retryDelayMs opts * 2 ^ i"
    by (simp add: backoffDelays_def nth_append)
  then have "waits (retryWithBackoff fn opts) ! i = retryDelayMs opts * 2 ^ i"
    using ws' len by (simp add: nth_append)
  moreover have "i < length (waits (retryWithBackoff fn opts))" using ws' len by simp
  moreover have "Suc (Suc i) \<le> invocations (retryWithBackoff fn opts)"
    unfolding run by (rule retryLoop_invokes [OF lt])
  ultimately show ?thesis by simp
qed

text \<open>
  Claim C5. An error is a throttling error exactly when its status code is 429 or its
  message contains \<open>throttled\<close> or \<open>Too Many Requests\<close>. When the invocations before the
  \<open>i\<close>-th were throttled and the \<open>i\<close>-th fails with an error that is not a throttling
  error, \<open>retryWithBackoff\<close> throws that error after \<open>i + 1\<close> invocations, with no further
  invocation and no further wait (for \<open>i = 0\<close>: after the first attempt, having slept
  nothing). When invocations \<open>0, \<dots>, i\<close> are throttled and attempts remain
  (\<open>i < maxRetries - 1\<close>), the run sleeps \<open>retryDelayMs * 2 ^ i\<close> after invocation \<open>i\<close>
  and invokes the operation again. With \<open>maxRetries = 3\<close>, an operation failing with a
  429 twice and then succeeding is invoked exactly 3 times, its value is returned, and
  the delays are \<open>retryDelayMs\<close> and \<open>2 * retryDelayMs\<close>.
\<close>

theorem retryWithBackoff_policy:
  "(isThrottlingError e \<longleftrightarrow>
      statusCode e = Some 429
      \<or> (\<exists>m. message e = Some m
              \<and> (includes_str m ''throttled'' \<or> includes_str m ''Too Many Requests'')))
   \<and> (int i < maxRetries opts \<and> (\<forall>j<i. throttledAt fn j) \<and> fn i = Inl err
        \<and> \<not> isThrottlingError err \<longrightarrow>
        retryWithBackoff fn opts =
          \<lparr>settled = Inl err, invocations = Suc i, waits = backoffDelays opts i\<rparr>)
   \<and> (int i < maxRetries opts - 1 \<and> (\<forall>j\<le>i. throttledAt fn j) \<longrightarrow>
        Suc (Suc i) \<le> invocations (retryWithBackoff fn opts)
        \<and> i < length (waits (retryWithBackoff fn opts))
        \<and> waits (retryWithBackoff fn opts) ! i = retryDelayMs opts * 2 ^ i)
   \<and> (maxRetries opts = 3 \<and> fn 0 = Inl e0 \<and> statusCode e0 = Some 429
        \<and> fn 1 = Inl e1 \<and> statusCode e1 = Some 429 \<and> fn 2 = Inr v \<longrightarrow>
        retryWithBackoff fn opts =
          \<lparr>settled = Inr v, invocations = 3,
           waits = [retryDelayMs opts, retryDelayMs opts * 2]\<rparr>)"
proof (intro conjI impI)
  show "isThrottlingError e \<longleftrightarrow>
      statusCode e = Some 429
      \<or> (\<exists>m. message e = Some m
              \<and> (includes_str m ''throttled'' \<or> includes_str m ''Too Many Requests''))"
    by (rule isThrottlingError_iff)
next
  assume "int i < maxRetries opts \<and> (\<forall>j<i. throttledAt fn j) \<and> fn i = Inl err
        \<and> \<not> isThrottlingError err"
  then show "retryWithBackoff fn opts =
          \<lparr>settled = Inl err, invocations = Suc i, waits = backoffDelays opts i\<rparr>"
    using retry_nonthrottling by blast
next
  assume h: "int i < maxRetries opts - 1 \<and> (\<forall>j\<le>i. throttledAt fn j)"
  note r = retry_throttled_waits [of i opts fn]
  show "Suc (Suc i) \<le> invocations (retryWithBackoff fn opts)" using h r by blast
  show "i < length (waits (retryWithBackoff fn opts))" using h r by blast
  show "waits (retryWithBackoff fn opts) ! i = retryDelayMs opts * 2 ^ i" using h r by blast
next
  assume h: "maxRetries opts = 3 \<and> fn 0 = Inl e0 \<and> statusCode e0 = Some 429
        \<and> fn 1 = Inl e1 \<and> statusCode e1 = Some 429 \<and> fn 2 = Inr v"
  have lt: "int 2 < maxRetries opts" using h by simp
  have thr: "\<forall>j<2. throttledAt fn j"
  proof (intro allI impI)
    fix j :: nat
    assume "j < 2"
    then have "j = 0 \<or> j = 1" by auto
    then show "throttledAt fn j"
      using h by (auto simp: throttledAt_def isThrottlingError_def)
  qed
  have "retryWithBackoff fn opts =
          \<lparr>settled = Inr v, invocations = Suc 2, waits = backoffDelays opts 2\<rparr>"
    using retry_success [OF lt thr] h by blast
  moreover have "backoffDelays opts 2 = [retryDelayMs opts, retryDelayMs opts * 2]"
    by (simp add: backoffDelays_def numeral_2_eq_2)
  ultimately show "retryWithBackoff fn opts =
          \<lparr>settled = Inr v, invocations = 3,
           waits = [retryDelayMs opts, retryDelayMs opts * 2]\<rparr>"
    by simp
qed


theorem retryWithBackoff_policy_witness:
  "retryWithBackoff
      (\<lambda>i. Inl \<lparr>statusCode = Some 500, message = Some ''Internal Server Error''\<rparr>
             :: ErrorWithStatus + nat)
      \<lparr>maxRetries = 3, retryDelayMs = 100\<rparr>
     = \<lparr>settled = Inl \<lparr>statusCode = Some 500, message = Some ''Internal Server Error''\<rparr>,
        invocations = 1, waits = []\<rparr>
   \<and> retryWithBackoff
        (\<lambda>i. if i < 2 then Inl \<lparr>statusCode = Some 429, message = Some ''Too Many Requests''\<rparr>
              else Inr (7 :: nat))
        \<lparr>maxRetries = 3, retryDelayMs = 100\<rparr>
     = \<lparr>settled = Inr 7, invocations = 3, waits = [100, 200]\<rparr>
   \<and> waits (retryWithBackoff
        (\<lambda>i. if i < 2 then Inl \<lparr>statusCode = Some 429, message = Some ''Too Many Requests''\<rparr>
              else Inr (7 :: nat))
        \<lparr>maxRetries = 3, retryDelayMs = 100\<rparr>) ! 1 = 100 * 2 ^ 1"
proof -
  let ?opts = "\<lparr>maxRetries = 3, retryDelayMs = 100\<rparr>"
  let ?e = "\<lparr>statusCode = Some 500, message = Some ''Internal Server Error''\<rparr>"
  let ?t = "\<lparr>statusCode = Some 429, message = Some ''Too Many Requests''\<rparr>"
  let ?fn1 = "\<lambda>i::nat. Inl ?e :: ErrorWithStatus + nat"
  let ?fn2 = "\<lambda>i::nat. if i < 2 then Inl ?t else Inr (7 :: nat)"
  have h1: "int 0 < maxRetries ?opts \<and> (\<forall>j<0. throttledAt ?fn1 j) \<and> ?fn1 0 = Inl ?e
        \<and> \<not> isThrottlingError ?e"
    by (simp add: isThrottlingError_def)
  have c1: "retryWithBackoff ?fn1 ?opts = \<lparr>settled = Inl ?e, invocations = 1, waits = []\<rparr>"
    using retryWithBackoff_policy [where i = 0 and opts = ?opts and fn = ?fn1 and err = ?e] h1
    by (simp add: backoffDelays_def)
  have h2: "maxRetries ?opts = 3 \<and> ?fn2 0 = Inl ?t \<and> statusCode ?t = Some 429
        \<and> ?fn2 1 = Inl ?t \<and> statusCode ?t = Some 429 \<and> ?fn2 2 = Inr 7"
    by simp
  have c2: "retryWithBackoff ?fn2 ?opts = \<lparr>settled = Inr 7, invocations = 3, waits = [100, 200]\<rparr>"
    using retryWithBackoff_policy [where opts = ?opts and fn = ?fn2 and ?e0.0 = ?t
        and ?e1.0 = ?t and v = 7] h2
    by simp
  have h3: "int 1 < maxRetries ?opts - 1 \<and> (\<forall>j\<le>1. throttledAt ?fn2 j)"
    by (simp add: throttledAt_def isThrottlingError_def)
  have c3: "waits (retryWithBackoff ?fn2 ?opts) ! 1 = 100 * 2 ^ 1"
    using retryWithBackoff_policy [where i = 1 and opts = ?opts and fn = ?fn2] h3
    by simp
  show ?thesis using c1 c2 c3 by simp
qed


section \<open>License details\<close>

lemma set_set_add: "set (set_add x xs) = insert x (set xs)"
  by (auto simp: set_add_def)

lemma distinct_set_add: "distinct xs \<Longrightarrow> distinct (set_add x xs)"
  by (simp add: set_add_def)

lemma set_fold_set_add: "set (fold set_add ys xs) = set xs \<union> set ys"
  by (induction ys arbitrary: xs) (auto simp: set_set_add)

lemma distinct_fold_set_add: "distinct xs \<Longrightarrow> distinct (fold set_add ys xs)"
  by (induction ys arbitrary: xs) (auto simp: distinct_set_add)

lemma set_fold_addEnabledPlan:
  "set (fold (addEnabledPlan d) plans acc) =
     set acc \<union> servicePlanName `
       {p \<in> set plans. servicePlanId p \<notin> set d \<and> provisioningStatus p = ''Success''}"
  by (induction plans arbitrary: acc) (auto simp: addEnabledPlan_def set_set_add)

lemma distinct_fold_addEnabledPlan:
  "distinct acc \<Longrightarrow> distinct (fold (addEnabledPlan d) plans acc)"
  by (induction plans arbitrary: acc) (auto simp: addEnabledPlan_def distinct_set_add)

lemma fst_fold_addLicense:
  "fst (fold (addLicense m) ls acc) = fst acc @ map (licenseName m) ls"
  by (induction ls arbitrary: acc)
     (auto simp: addLicense_def licenseName_def split: option.splits)

lemma set_snd_fold_addLicense:
  "set (snd (fold (addLicense m) ls acc)) = set (snd acc) \<union> (\<Union>a \<in> set ls. enabledPlanNames m a)"
proof (induction ls arbitrary: acc)
  case Nil
  show ?case by simp
next
  case (Cons a ls)
  have "set (snd (addLicense m a acc)) = set (snd acc) \<union> enabledPlanNames m a"
    by (simp add: addLicense_def enabledPlanNames_def set_fold_addEnabledPlan split: option.splits)
  with Cons.IH [of "addLicense m a acc"] show ?case by auto
qed

lemma distinct_snd_fold_addLicense:
  "distinct (snd acc) \<Longrightarrow> distinct (snd (fold (addLicense m) ls acc))"
proof (induction ls arbitrary: acc)
  case Nil
  then show ?case by simp
next
  case (Cons a ls)
  have "distinct (snd (addLicense m a acc))"
    using Cons.prems
    by (simp add: addLicense_def distinct_fold_addEnabledPlan split: option.splits)
  with Cons.IH [of "addLicense m a acc"] show ?case by simp
qed

lemma licenseSkus_props:
  "sorted (licenseSkus (getUserLicenseDetails m assigned))
   \<and> distinct (licenseSkus (getUserLicenseDetails m assigned))
   \<and> set (licenseSkus (getUserLicenseDetails m assigned)) = licenseName m ` set (assignedList assigned)"
  by (cases assigned)
     (auto simp: getUserLicenseDetails_def assignedList_def Let_def set_fold_set_add
        distinct_fold_set_add fst_fold_addLicense)

lemma licensePlans_props:
  "sorted (licenseServicePlans (getUserLicenseDetails m assigned))
   \<and> distinct (licenseServicePlans (getUserLicenseDetails m assigned))
   \<and> set (licenseServicePlans (getUserLicenseDetails m assigned))
       = (\<Union>a \<in> set (assignedList assigned). enabledPlanNames m a)"
  by (cases assigned)
     (auto simp: getUserLicenseDetails_def assignedList_def Let_def set_snd_fold_addLicense
        distinct_snd_fold_addLicense)

lemma licenseCount_raw:
  "licenseCount (getUserLicenseDetails m assigned) = length (assignedList assigned)"
  by (cases assigned) (auto simp: getUserLicenseDetails_def assignedList_def Let_def)

lemma unknown_sku:
  "m x = None \<Longrightarrow>
   getUserLicenseDetails m (Some [\<lparr>skuId = x, disabledPlans = d\<rparr>])
     = \<lparr>licenseSkus = [x], licenseCount = 1, licenseServicePlans = []\<rparr>"
  by (simp add: getUserLicenseDetails_def addLicense_def set_add_def)

text \<open>
  Claim C7. For every assigned-license list (also a missing one) and every catalog,
  \<open>getUserLicenseDetails\<close> returns: the display names of the assignments, the raw SKU
  id standing for an assignment whose SKU the catalog lacks, without duplicates and
  sorted (in the order of JavaScript's default \<^verbatim>\<open>sort\<close>, lexicographic by character
  code); the raw length of the assigned-license list as the count; and, without
  duplicates and sorted, the names of the service plans that some assignment's SKU has,
  that are not in that assignment's disabled list and whose provisioning status is
  \<open>Success\<close>. For the single assignment of a SKU \<open>x\<close> missing from the catalog the SKU
  list is \<open>[x]\<close> and the service-plan list is empty.
\<close>

theorem getUserLicenseDetails_spec:
  "sorted (licenseSkus (getUserLicenseDetails m assigned))
   \<and> distinct (licenseSkus (getUserLicenseDetails m assigned))
   \<and> set (licenseSkus (getUserLicenseDetails m assigned))
       = licenseName m ` set (assignedList assigned)
   \<and> licenseCount (getUserLicenseDetails m assigned) = length (assignedList assigned)
   \<and> sorted (licenseServicePlans (getUserLicenseDetails m assigned))
   \<and> distinct (licenseServicePlans (getUserLicenseDetails m assigned))
   \<and> set (licenseServicePlans (getUserLicenseDetails m assigned))
       = (\<Union>a \<in> set (assignedList assigned). enabledPlanNames m a)
   \<and> (m x = None \<longrightarrow>
        licenseName m \<lparr>skuId = x, disabledPlans = d\<rparr> = x
        \<and> getUserLicenseDetails m (Some [\<lparr>skuId = x, disabledPlans = d\<rparr>])
            = \<lparr>licenseSkus = [x], licenseCount = 1, licenseServicePlans = []\<rparr>)"
  using licenseSkus_props [of m assigned] licensePlans_props [of m assigned]
    licenseCount_raw [of m assigned] unknown_sku [of m x d]
  by (simp add: licenseName_def)


theorem getUserLicenseDetails_spec_witness:
  "[''sku-1'' \<mapsto> \<lparr>sku_skuId = ''sku-1'', skuPartNumber = ''ENTERPRISEPACK'',
                    sku_displayName = ''Office 365 E3'',
                    servicePlans = [\<lparr>servicePlanId = ''plan-1'', servicePlanName = ''EXCHANGE'',
                                     provisioningStatus = ''Success''\<rparr>]\<rparr>] ''X'' = None
   \<and> getUserLicenseDetails
        [''sku-1'' \<mapsto> \<lparr>sku_skuId = ''sku-1'', skuPartNumber = ''ENTERPRISEPACK'',
                       sku_displayName = ''Office 365 E3'',
                       servicePlans = [\<lparr>servicePlanId = ''plan-1'', servicePlanName = ''EXCHANGE'',
                                        provisioningStatus = ''Success''\<rparr>]\<rparr>]
        (Some [\<lparr>skuId = ''X'', disabledPlans = None\<rparr>])
       = \<lparr>licenseSkus = [''X''], licenseCount = 1, licenseServicePlans = []\<rparr>"
proof -
  let ?m = "[''sku-1'' \<mapsto> \<lparr>sku_skuId = ''sku-1'', skuPartNumber = ''ENTERPRISEPACK'',
                    sku_displayName = ''Office 365 E3'',
                    servicePlans = [\<lparr>servicePlanId = ''plan-1'', servicePlanName = ''EXCHANGE'',
                                     provisioningStatus = ''Success''\<rparr>]\<rparr>]"
  have h: "?m ''X'' = None" by simp
  from getUserLicenseDetails_spec [of ?m "Some [\<lparr>skuId = ''X'', disabledPlans = None\<rparr>]" "''X''" None]
  have "?m ''X'' = None \<longrightarrow>
        getUserLicenseDetails ?m (Some [\<lparr>skuId = ''X'', disabledPlans = None\<rparr>])
            = \<lparr>licenseSkus = [''X''], licenseCount = 1, licenseServicePlans = []\<rparr>"
    by blast
  with h show ?thesis by blast
qed


section \<open>MFA lookup\<close>

lemma executeBatch_resolves:
  "executeBatch post opts req =
     Inr (case settled (retryWithBackoff (post req) opts) of
            Inl err \<Rightarrow> \<lparr>responses = []\<rparr> | Inr response \<Rightarrow> response)"
  by (simp add: executeBatch_def split: sum.splits)

lemma mfaFromResponse_empty: "mfaFromResponse \<lparr>responses = []\<rparr> = Inr mfaNoDataInfo"
  by (simp add: mfaFromResponse_def at_index_def mfaNoDataInfo_def noMethodFlags_def
      or_default_def MfaMethodFlags.defs MfaInfo.defs)

lemma getUserMfaInfo_exec_raises:
  "exec (mfaRequest userId) = Inl err \<Longrightarrow> getUserMfaInfo exec userId = mfaErrorInfo"
  by (simp add: getUserMfaInfo_def mfaRequest_def)

lemma getUserMfaInfo_handling_raises:
  "exec (mfaRequest userId) = Inr response \<Longrightarrow> mfaFromResponse response = Inl err \<Longrightarrow>
   getUserMfaInfo exec userId = mfaErrorInfo"
  by (simp add: getUserMfaInfo_def mfaRequest_def)

lemma getUserMfaInfo_post_fails:
  "settled (retryWithBackoff (post (mfaRequest userId)) opts) = Inl err \<Longrightarrow>
   getUserMfaInfo (executeBatch post opts) userId = mfaNoDataInfo"
  by (simp add: getUserMfaInfo_def mfaRequest_def executeBatch_def mfaFromResponse_empty)

text \<open>
  With the \<open>executeBatch\<close> of the repository's batch service, which never rejects, a
  batch POST that fails entirely reaches \<open>getUserMfaInfo\<close> as an empty response list
  (\<open>getUserMfaInfo_post_fails\<close>); the sentinel is what \<open>getUserMfaInfo\<close> returns when
  the \<open>executeBatch\<close> it was given rejects.
\<close>

lemma getUserMfaInfo_resolves:
  "getUserMfaInfo exec userId = mfaErrorInfo
   \<or> (\<exists>resp info. exec (mfaRequest userId) = Inr resp \<and> mfaFromResponse resp = Inr info
          \<and> getUserMfaInfo exec userId = info)"
proof (cases "exec (mfaRequest userId)")
  case (Inl err)
  then show ?thesis by (simp add: getUserMfaInfo_exec_raises)
next
  case resp: (Inr resp)
  show ?thesis
  proof (cases "mfaFromResponse resp")
    case (Inl err)
    then show ?thesis using resp by (simp add: getUserMfaInfo_handling_raises)
  next
    case (Inr info)
    then have "getUserMfaInfo exec userId = info"
      using resp by (simp add: getUserMfaInfo_def mfaRequest_def)
    then show ?thesis using resp Inr by blast
  qed
qed

text \<open>
  Claim C1. For every user id, when the batched MFA request fails entirely, that is,
  when the batch execution (the \<open>executeBatch\<close> that \<open>getUserMfaInfo\<close> awaits) raises,
  \<open>getUserMfaInfo\<close> returns the sentinel: status \<open>Unknown\<close>, default method \<open>Error\<close>,
  the eight method flags false. The same holds when the handling of a received response
  throws. It never raises to its caller: its result is always either the sentinel or
  the information computed from the response.
\<close>

theorem getUserMfaInfo_sentinel_on_failure:
  "(exec (mfaRequest userId) = Inl err \<longrightarrow> getUserMfaInfo exec userId = mfaErrorInfo)
   \<and> (exec (mfaRequest userId) = Inr resp \<and> mfaFromResponse resp = Inl err \<longrightarrow>
        getUserMfaInfo exec userId = mfaErrorInfo)
   \<and> (getUserMfaInfo exec userId = mfaErrorInfo
        \<or> (\<exists>resp info. exec (mfaRequest userId) = Inr resp \<and> mfaFromResponse resp = Inr info
               \<and> getUserMfaInfo exec userId = info))
   \<and> mfaStatus mfaErrorInfo = Unknown \<and> defaultMethod mfaErrorInfo = ''Error''
   \<and> \<not> emailAuth mfaErrorInfo \<and> \<not> fido2Auth mfaErrorInfo
   \<and> \<not> msAuthenticatorApp mfaErrorInfo \<and> \<not> msAuthenticatorLite mfaErrorInfo
   \<and> \<not> phoneAuth mfaErrorInfo \<and> \<not> softwareOath mfaErrorInfo
   \<and> \<not> temporaryAccessPass mfaErrorInfo \<and> \<not> windowsHello mfaErrorInfo"
  using getUserMfaInfo_exec_raises [of exec userId err]
    getUserMfaInfo_handling_raises [of exec userId resp err]
    getUserMfaInfo_resolves [of exec userId]
  by (simp add: mfaErrorInfo_def)

theorem getUserMfaInfo_sentinel_on_failure_witness:
  "getUserMfaInfo (\<lambda>req. Inl \<lparr>statusCode = None, message = Some ''API Error''\<rparr>) ''123''
     = \<lparr>emailAuth = False, fido2Auth = False, msAuthenticatorApp = False,
        msAuthenticatorLite = False, phoneAuth = False, softwareOath = False,
        temporaryAccessPass = False, windowsHello = False,
        defaultMethod = ''Error'', mfaStatus = Unknown\<rparr>
   \<and> getUserMfaInfo
        (\<lambda>req. Inr \<lparr>responses = [\<lparr>resp_id = ''1'', status = 200, body = None\<rparr>]\<rparr>) ''123''
     = \<lparr>emailAuth = False, fido2Auth = False, msAuthenticatorApp = False,
        msAuthenticatorLite = False, phoneAuth = False, softwareOath = False,
        temporaryAccessPass = False, windowsHello = False,
        defaultMethod = ''Error'', mfaStatus = Unknown\<rparr>"
proof -
  let ?e = "\<lparr>statusCode = None, message = Some ''API Error''\<rparr>"
  let ?bad = "\<lparr>responses = [\<lparr>resp_id = ''1'', status = 200, body = None\<rparr>]\<rparr>"
  have h1: "(\<lambda>req :: BatchRequest. Inl ?e :: ErrorWithStatus + BatchResponse) (mfaRequest ''123'')
              = Inl ?e"
    by simp
  have c1: "getUserMfaInfo (\<lambda>req. Inl ?e) ''123'' = mfaErrorInfo"
    using getUserMfaInfo_sentinel_on_failure [where exec = "\<lambda>req. Inl ?e" and userId = "''123''"
        and err = ?e] h1
    by simp
  have h2: "mfaFromResponse ?bad = Inl (TypeError ''Cannot read properties of undefined'')"
    by (simp add: mfaFromResponse_def at_index_def)
  have c2: "getUserMfaInfo (\<lambda>req. Inr ?bad) ''123'' = mfaErrorInfo"
    using getUserMfaInfo_sentinel_on_failure [where exec = "\<lambda>req. Inr ?bad" and userId = "''123''"
        and resp = ?bad and err = "TypeError ''Cannot read properties of undefined''"] h2
    by simp
  show ?thesis using c1 c2 by (simp add: mfaErrorInfo_def)
qed

section \<open>Security-group lookup\<close>

lemma groups_count:
  "count_grp (getUserSecurityGroups get opts uid)
     = length (groups (getUserSecurityGroups get opts uid))"
  by (simp add: getUserSecurityGroups_def Let_def split: sum.splits option.splits)

lemma groups_ok:
  "settled (retryWithBackoff (get (memberOfPath uid)) opts) = Inr response \<Longrightarrow>
   memberOf_value response = Some members \<Longrightarrow>
   getUserSecurityGroups get opts uid
     = \<lparr>groups = sort (map member_displayName (filter isSecurityGroup members)),
        count_grp = length (filter isSecurityGroup members)\<rparr>"
  by (simp add: getUserSecurityGroups_def memberOfPath_def Let_def)

lemma groups_fail:
  "settled (retryWithBackoff (get (memberOfPath uid)) opts) = Inl err \<Longrightarrow>
   getUserSecurityGroups get opts uid = \<lparr>groups = [], count_grp = 0\<rparr>"
  by (simp add: getUserSecurityGroups_def memberOfPath_def Let_def)

lemma groups_no_value:
  "settled (retryWithBackoff (get (memberOfPath uid)) opts) = Inr response \<Longrightarrow>
   memberOf_value response = None \<Longrightarrow>
   getUserSecurityGroups get opts uid = \<lparr>groups = [], count_grp = 0\<rparr>"
  by (simp add: getUserSecurityGroups_def memberOfPath_def Let_def)

text \<open>
  Claim C8. A member is kept exactly when its directory type is
  \<open>#microsoft.graph.group\<close> and its security-enabled flag is true. For every user id and
  every membership response, \<open>getUserSecurityGroups\<close> returns the display names of
  exactly the kept members (as a multiset), sorted ascending, and their number. For a
  response of one security-enabled group, one group that is not security-enabled and
  one security-enabled administrative unit, the result is exactly the first. When the
  retried call fails, or its response carries no member list, the result is empty; the
  function always resolves (its result is a plain \<open>SecurityGroupInfo\<close>).
\<close>

theorem getUserSecurityGroups_spec:
  "(isSecurityGroup g \<longleftrightarrow>
      member_odata_type g = Some ''#microsoft.graph.group'' \<and> securityEnabled g = Some True)
   \<and> (settled (retryWithBackoff (get (memberOfPath uid)) opts) = Inr response
        \<and> memberOf_value response = Some members \<longrightarrow>
        sorted (groups (getUserSecurityGroups get opts uid))
        \<and> mset (groups (getUserSecurityGroups get opts uid))
             = mset (map member_displayName (filter isSecurityGroup members))
        \<and> count_grp (getUserSecurityGroups get opts uid)
             = length (filter isSecurityGroup members))
   \<and> (settled (retryWithBackoff (get (memberOfPath uid)) opts) = Inr response
        \<and> memberOf_value response = Some [a, b, c]
        \<and> member_odata_type a = Some ''#microsoft.graph.group'' \<and> securityEnabled a = Some True
        \<and> member_odata_type b = Some ''#microsoft.graph.group'' \<and> securityEnabled b \<noteq> Some True
        \<and> member_odata_type c = Some ''#microsoft.graph.administrativeUnit''
        \<and> securityEnabled c = Some True \<longrightarrow>
        getUserSecurityGroups get opts uid
          = \<lparr>groups = [member_displayName a], count_grp = 1\<rparr>)
   \<and> (settled (retryWithBackoff (get (memberOfPath uid)) opts) = Inl err \<longrightarrow>
        getUserSecurityGroups get opts uid = \<lparr>groups = [], count_grp = 0\<rparr>)
   \<and> (settled (retryWithBackoff (get (memberOfPath uid)) opts) = Inr response
        \<and> memberOf_value response = None \<longrightarrow>
        getUserSecurityGroups get opts uid = \<lparr>groups = [], count_grp = 0\<rparr>)"
proof (intro conjI impI)
  show "isSecurityGroup g \<longleftrightarrow>
      member_odata_type g = Some ''#microsoft.graph.group'' \<and> securityEnabled g = Some True"
    by (simp add: isSecurityGroup_def)
next
  assume h: "settled (retryWithBackoff (get (memberOfPath uid)) opts) = Inr response
        \<and> memberOf_value response = Some members"
  then have r: "getUserSecurityGroups get opts uid
     = \<lparr>groups = sort (map member_displayName (filter isSecurityGroup members)),
        count_grp = length (filter isSecurityGroup members)\<rparr>"
    using groups_ok by blast
  show "sorted (groups (getUserSecurityGroups get opts uid))" by (simp add: r)
  show "mset (groups (getUserSecurityGroups get opts uid))
             = mset (map member_displayName (filter isSecurityGroup members))"
    by (simp add: r)
  show "count_grp (getUserSecurityGroups get opts uid) = length (filter isSecurityGroup members)"
    by (simp add: r)
next
  assume h: "settled (retryWithBackoff (get (memberOfPath uid)) opts) = Inr response
        \<and> memberOf_value response = Some [a, b, c]
        \<and> member_odata_type a = Some ''#microsoft.graph.group'' \<and> securityEnabled a = Some True
        \<and> member_odata_type b = Some ''#microsoft.graph.group'' \<and> securityEnabled b \<noteq> Some True
        \<and> member_odata_type c = Some ''#microsoft.graph.administrativeUnit''
        \<and> securityEnabled c = Some True"
  then have "filter isSecurityGroup [a, b, c] = [a]"
    by (simp add: isSecurityGroup_def)
  then show "getUserSecurityGroups get opts uid
          = \<lparr>groups = [member_displayName a], count_grp = 1\<rparr>"
    using h groups_ok [of get uid opts response "[a, b, c]"] by simp
next
  assume "settled (retryWithBackoff (get (memberOfPath uid)) opts) = Inl err"
  then show "getUserSecurityGroups get opts uid = \<lparr>groups = [], count_grp = 0\<rparr>"
    by (rule groups_fail)
next
  assume "settled (retryWithBackoff (get (memberOfPath uid)) opts) = Inr response
        \<and> memberOf_value response = None"
  then show "getUserSecurityGroups get opts uid = \<lparr>groups = [], count_grp = 0\<rparr>"
    using groups_no_value by blast
qed

theorem getUserSecurityGroups_spec_witness:
  "getUserSecurityGroups
      (\<lambda>path i. Inr \<lparr>memberOf_value = Some
         [\<lparr>member_odata_type = Some ''#microsoft.graph.group'', securityEnabled = Some True,
           member_displayName = ''Admins''\<rparr>,
          \<lparr>member_odata_type = Some ''#microsoft.graph.group'', securityEnabled = Some False,
           member_displayName = ''Newsletter''\<rparr>,
          \<lparr>member_odata_type = Some ''#microsoft.graph.administrativeUnit'',
           securityEnabled = Some True, member_displayName = ''Unit''\<rparr>]\<rparr>)
      \<lparr>maxRetries = 3, retryDelayMs = 2000\<rparr> ''u1''
     = \<lparr>groups = [''Admins''], count_grp = 1\<rparr>
   \<and> getUserSecurityGroups
        (\<lambda>path i. Inl \<lparr>statusCode = Some 403, message = Some ''Forbidden''\<rparr>)
        \<lparr>maxRetries = 3, retryDelayMs = 2000\<rparr> ''u1''
     = \<lparr>groups = [], count_grp = 0\<rparr>"
proof -
  let ?a = "\<lparr>member_odata_type = Some ''#microsoft.graph.group'', securityEnabled = Some True,
           member_displayName = ''Admins''\<rparr>"
  let ?b = "\<lparr>member_odata_type = Some ''#microsoft.graph.group'', securityEnabled = Some False,
           member_displayName = ''Newsletter''\<rparr>"
  let ?c = "\<lparr>member_odata_type = Some ''#microsoft.graph.administrativeUnit'',
           securityEnabled = Some True, member_displayName = ''Unit''\<rparr>"
  let ?opts = "\<lparr>maxRetries = 3, retryDelayMs = 2000\<rparr>"
  let ?resp = "\<lparr>memberOf_value = Some [?a, ?b, ?c]\<rparr>"
  let ?get = "\<lambda>(path :: string) (i :: nat). Inr ?resp :: ErrorWithStatus + MemberOfResponse"
  let ?e = "\<lparr>statusCode = Some 403, message = Some ''Forbidden''\<rparr>"
  let ?bad = "\<lambda>(path :: string) (i :: nat). Inl ?e :: ErrorWithStatus + MemberOfResponse"
  have h1: "settled (retryWithBackoff (?get (memberOfPath ''u1'')) ?opts) = Inr ?resp"
    by (simp add: retryWithBackoff_def retryLoop.simps)
  have c1: "getUserSecurityGroups ?get ?opts ''u1'' = \<lparr>groups = [''Admins''], count_grp = 1\<rparr>"
    using getUserSecurityGroups_spec [where get = ?get and opts = ?opts and uid = "''u1''"
        and response = ?resp and a = ?a and b = ?b and c = ?c] h1
    by simp
  have h2: "settled (retryWithBackoff (?bad (memberOfPath ''u1'')) ?opts) = Inl ?e"
    by (simp add: retryWithBackoff_def retryLoop.simps isThrottlingError_def)
  have c2: "getUserSecurityGroups ?bad ?opts ''u1'' = \<lparr>groups = [], count_grp = 0\<rparr>"
    using getUserSecurityGroups_spec [where get = ?bad and opts = ?opts and uid = "''u1''"
        and err = ?e] h2
    by simp
  show ?thesis using c1 c2 by simp
qed


section \<open>The record of one user\<close>

lemma includes_str_char: "includes_str s [c] \<longleftrightarrow> c \<in> set s"
  by (induction s) auto

lemma split_on_not_Nil: "split_on c s \<noteq> []"
  by (induction s) (auto split: list.splits)

lemma hd_split_on: "hd (split_on c s) = takeWhile (\<lambda>x. x \<noteq> c) s"
  by (induction s) (auto simp: split_on_not_Nil split: list.splits)

lemma tl_split_on:
  "tl (split_on c s) = (if c \<in> set s then split_on c (tl (dropWhile (\<lambda>x. x \<noteq> c) s)) else [])"
  by (induction s) (auto simp: split_on_not_Nil split: list.splits)

lemma split_on_second:
  "at_index (split_on c s) (Suc 0) =
     (if c \<in> set s then Some (takeWhile (\<lambda>x. x \<noteq> c) (tl (dropWhile (\<lambda>x. x \<noteq> c) s))) else None)"
proof -
  obtain w ws where sp: "split_on c s = w # ws"
    using split_on_not_Nil [of c s] by (cases "split_on c s") auto
  have ws: "ws = (if c \<in> set s then split_on c (tl (dropWhile (\<lambda>x. x \<noteq> c) s)) else [])"
    using tl_split_on [of c s] sp by simp
  show ?thesis
  proof (cases "c \<in> set s")
    case False
    then show ?thesis using sp ws by (simp add: at_index_def)
  next
    case True
    let ?rest = "tl (dropWhile (\<lambda>x. x \<noteq> c) s)"
    obtain v vs where v: "split_on c ?rest = v # vs"
      using split_on_not_Nil [of c ?rest] by (cases "split_on c ?rest") auto
    have "v = takeWhile (\<lambda>x. x \<noteq> c) ?rest" using hd_split_on [of c ?rest] v by simp
    then show ?thesis using True sp ws v by (simp add: at_index_def)
  qed
qed

lemma single_separator:
  "count_list s c = 1 \<Longrightarrow> c \<in> set s \<and> c \<notin> set (tl (dropWhile (\<lambda>x. x \<noteq> c) s))"
proof (induction s)
  case Nil
  then show ?case by simp
next
  case (Cons x s)
  show ?case
  proof (cases "x = c")
    case True
    then have "count_list s c = 0" using Cons.prems by simp
    then have "c \<notin> set s" by (simp add: count_list_0_iff)
    then show ?thesis using True by simp
  next
    case False
    then show ?thesis using Cons by simp
  qed
qed

lemma single_separator_afterAt:
  assumes "count_list upn CHR ''@'' = 1"
  shows "takeWhile (\<lambda>c. c \<noteq> CHR ''@'') (afterAt upn) = afterAt upn \<and> CHR ''@'' \<in> set upn"
proof -
  have m: "CHR ''@'' \<in> set upn" and n: "CHR ''@'' \<notin> set (afterAt upn)"
    using single_separator [OF assms] by (simp_all add: afterAt_def)
  have "\<forall>x\<in>set (afterAt upn). x \<noteq> CHR ''@''" using n by blast
  then have "takeWhile (\<lambda>c. c \<noteq> CHR ''@'') (afterAt upn) = afterAt upn"
    by (simp only: takeWhile_eq_all_conv)
  with m show ?thesis by simp
qed

lemma domain_cases:
  assumes f: "d = (case p of
                  None \<Rightarrow> None
                | Some upn \<Rightarrow>
                    if includes_str upn ''@'' then at_index (split_on CHR ''@'' upn) 1 else None)"
  shows "(p = None \<longrightarrow> d = None)
   \<and> (p = Some upn \<and> CHR ''@'' \<notin> set upn \<longrightarrow> d = None)
   \<and> (p = Some upn \<and> CHR ''@'' \<in> set upn \<longrightarrow>
        d = Some (takeWhile (\<lambda>c. c \<noteq> CHR ''@'') (afterAt upn)))
   \<and> (p = Some upn \<and> count_list upn CHR ''@'' = 1 \<longrightarrow>
        d = Some (afterAt upn))"
proof -
  have third: "d = Some (takeWhile (\<lambda>c. c \<noteq> CHR ''@'') (afterAt upn))"
    if "p = Some upn" and "CHR ''@'' \<in> set upn"
    using f that by (simp add: includes_str_char split_on_second afterAt_def)
  have fourth: "d = Some (afterAt upn)"
    if p: "p = Some upn" and one: "count_list upn CHR ''@'' = 1"
  proof -
    have tw: "takeWhile (\<lambda>c. c \<noteq> CHR ''@'') (afterAt upn) = afterAt upn"
      and m: "CHR ''@'' \<in> set upn"
      using single_separator_afterAt [OF one] by blast+
    show ?thesis using third [OF p m] by (simp only: tw)
  qed
  have first: "d = None" if "p = None"
    using f that by simp
  have second: "d = None" if "p = Some upn" and "CHR ''@'' \<notin> set upn"
    using f that by (simp add: includes_str_char)
  show ?thesis using first second third fourth by blast
qed

text \<open>The fields of a produced record that the claims speak of.\<close>

lemma processUser_record:
  assumes "processUser mfa grp cat u hp st = (st', Some r)"
  shows "\<exists>m g. mfa (user_id u) = Inr m \<and> grp (user_id u) = Inr g
           \<and> ID r = user_id u
           \<and> Domain_name r =
               (case userPrincipalName u of
                  None \<Rightarrow> None
                | Some upn \<Rightarrow>
                    if includes_str upn ''@'' then at_index (split_on CHR ''@'' upn) 1 else None)
           \<and> Last_successful_sign_in r =
               (case (if hp then or_null (signInTimestamp u) else None) of
                  Some t \<Rightarrow> t
                | None \<Rightarrow> if hp then ''No sign in'' else ''No Microsoft Entra ID Premium license'')
           \<and> Security_Groups r = join ''; '' (groups g)
           \<and> Security_Group_Count r = count_grp g"
proof (cases "mfa (user_id u)")
  case (Inl e)
  then show ?thesis using assms by (simp add: processUser_def)
next
  case m: (Inr m)
  show ?thesis
  proof (cases "grp (user_id u)")
    case (Inl e)
    then show ?thesis using assms m by (simp add: processUser_def)
  next
    case g: (Inr g)
    have "snd (processUser mfa grp cat u hp st) = Some r" using assms by simp
    then show ?thesis
      unfolding processUser_def m g signInTimestamp_def
      by (auto simp: Let_def)
  qed
qed

lemma record_Last_successful_sign_in:
  assumes "processUser mfa grp cat u hp st = (st', Some r)"
  shows "Last_successful_sign_in r =
               (case (if hp then or_null (signInTimestamp u) else None) of
                  Some t \<Rightarrow> t
                | None \<Rightarrow> if hp then ''No sign in'' else ''No Microsoft Entra ID Premium license'')"
  using processUser_record [OF assms] by (elim exE conjE)

lemma record_Domain_name:
  assumes "processUser mfa grp cat u hp st = (st', Some r)"
  shows "Domain_name r =
               (case userPrincipalName u of
                  None \<Rightarrow> None
                | Some upn \<Rightarrow>
                    if includes_str upn ''@'' then at_index (split_on CHR ''@'' upn) 1 else None)"
  using processUser_record [OF assms] by (elim exE conjE)

lemma record_Security_Groups:
  assumes "processUser mfa grp cat u hp st = (st', Some r)"
  shows "\<exists>g. grp (user_id u) = Inr g \<and> Security_Groups r = join ''; '' (groups g)
           \<and> Security_Group_Count r = count_grp g"
  using processUser_record [OF assms] by (elim exE conjE) (intro exI conjI)

lemma record_ID:
  assumes "processUser mfa grp cat u hp st = (st', Some r)"
  shows "ID r = user_id u"
  using processUser_record [OF assms] by (elim exE conjE)

lemma sign_in_cases:
  assumes f: "s = (case (if hp then or_null ts else None) of
                  Some t \<Rightarrow> t
                | None \<Rightarrow> if hp then ''No sign in'' else ''No Microsoft Entra ID Premium license'')"
  shows "(\<not> hp \<longrightarrow> s = ''No Microsoft Entra ID Premium license'')
   \<and> (hp \<and> ts = Some t \<and> t \<noteq> [] \<longrightarrow> s = t)
   \<and> (hp \<and> (ts = None \<or> ts = Some []) \<longrightarrow> s = ''No sign in'')"
  unfolding f by (auto simp: or_null_def)

lemma processUser_fails:
  "enrichmentFails mfa grp u \<Longrightarrow>
   processUser mfa grp cat u hp st = (st\<lparr>errors := errors st + 1\<rparr>, None)"
  by (cases "mfa (user_id u)"; cases "grp (user_id u)")
     (simp_all add: enrichmentFails_def processUser_def)

lemma processUser_succeeds:
  assumes "\<not> enrichmentFails mfa grp u"
  shows "processUser mfa grp cat u hp st
           = (st\<lparr>processed := processed st + 1\<rparr>, recordOf mfa grp cat hp u)
         \<and> recordOf mfa grp cat hp u \<noteq> None"
proof -
  obtain m g where m: "mfa (user_id u) = Inr m" and g: "grp (user_id u) = Inr g"
    using assms by (cases "mfa (user_id u)"; cases "grp (user_id u)")
                   (simp_all add: enrichmentFails_def)
  show ?thesis
    by (simp add: recordOf_def processUser_def m g Let_def)
qed

lemma processUser_some:
  assumes "\<not> enrichmentFails mfa grp u"
  shows "\<exists>r. processUser mfa grp cat u hp st = (st\<lparr>processed := processed st + 1\<rparr>, Some r)"
  using processUser_succeeds [OF assms, of cat hp st] by auto

lemma recordOf_None: "recordOf mfa grp cat hp u = None \<longleftrightarrow> enrichmentFails mfa grp u"
proof (cases "enrichmentFails mfa grp u")
  case True
  then show ?thesis by (simp add: recordOf_def processUser_fails)
next
  case False
  then show ?thesis using processUser_succeeds [of mfa grp u cat hp] by simp
qed

lemma snd_processUser: "snd (processUser mfa grp cat u hp st) = recordOf mfa grp cat hp u"
proof (cases "enrichmentFails mfa grp u")
  case True
  then show ?thesis by (simp add: recordOf_def processUser_fails)
next
  case False
  then show ?thesis using processUser_succeeds [of mfa grp u cat hp st] by simp
qed

lemma fst_processUser:
  "fst (processUser mfa grp cat u hp st) =
     (if enrichmentFails mfa grp u then st\<lparr>errors := errors st + 1\<rparr>
      else st\<lparr>processed := processed st + 1\<rparr>)"
proof (cases "enrichmentFails mfa grp u")
  case True
  then show ?thesis by (simp add: processUser_fails)
next
  case False
  then show ?thesis using processUser_succeeds [of mfa grp u cat hp st] by simp
qed

lemma recordOf_ID: "recordOf mfa grp cat hp u = Some r \<Longrightarrow> ID r = user_id u"
proof -
  assume r: "recordOf mfa grp cat hp u = Some r"
  let ?st = "\<lparr>totalUsers = 0, processed = 0, errors = 0, startTime = None\<rparr>"
  have "processUser mfa grp cat u hp ?st = (fst (processUser mfa grp cat u hp ?st), Some r)"
    using r by (simp add: recordOf_def prod_eq_iff)
  then show "ID r = user_id u" by (rule record_ID)
qed

text \<open>
  Claim C6. For every user whose record is produced: without the premium entitlement
  the sign-in-status field is the fixed premium-absent string, whatever sign-in
  timestamp the user carries; with it and a last-successful-sign-in timestamp (a
  non-empty string) the field is that timestamp verbatim; with it and no timestamp
  present (the property is missing, or holds the empty string, which is no timestamp)
  the field is the fixed no-sign-in string.
\<close>

theorem processUser_lastSignIn:
  "processUser mfa grp cat u hp st = (st', Some r) \<longrightarrow>
     (\<not> hp \<longrightarrow> Last_successful_sign_in r = ''No Microsoft Entra ID Premium license'')
   \<and> (hp \<and> signInTimestamp u = Some t \<and> t \<noteq> [] \<longrightarrow> Last_successful_sign_in r = t)
   \<and> (hp \<and> (signInTimestamp u = None \<or> signInTimestamp u = Some []) \<longrightarrow>
        Last_successful_sign_in r = ''No sign in'')"
proof
  assume "processUser mfa grp cat u hp st = (st', Some r)"
  then have f: "Last_successful_sign_in r =
               (case (if hp then or_null (signInTimestamp u) else None) of
                  Some t \<Rightarrow> t
                | None \<Rightarrow> if hp then ''No sign in'' else ''No Microsoft Entra ID Premium license'')"
    by (rule record_Last_successful_sign_in)
  show "(\<not> hp \<longrightarrow> Last_successful_sign_in r = ''No Microsoft Entra ID Premium license'')
   \<and> (hp \<and> signInTimestamp u = Some t \<and> t \<noteq> [] \<longrightarrow> Last_successful_sign_in r = t)
   \<and> (hp \<and> (signInTimestamp u = None \<or> signInTimestamp u = Some []) \<longrightarrow>
        Last_successful_sign_in r = ''No sign in'')"
    by (rule sign_in_cases [OF f])
qed

theorem processUser_lastSignIn_witness:
  "map_option Last_successful_sign_in
     (snd (processUser (\<lambda>uid. Inr mfaNoDataInfo) (\<lambda>uid. Inr \<lparr>groups = [], count_grp = 0\<rparr>)
        Map.empty
        (exampleUser ''u1'' ''ann@contoso.com''
           (Some \<lparr>lastSuccessfulSignInDateTime = Some ''2024-05-01T08:30:00Z''\<rparr>))
        False \<lparr>totalUsers = 1, processed = 0, errors = 0, startTime = None\<rparr>))
     = Some ''No Microsoft Entra ID Premium license''
   \<and> map_option Last_successful_sign_in
     (snd (processUser (\<lambda>uid. Inr mfaNoDataInfo) (\<lambda>uid. Inr \<lparr>groups = [], count_grp = 0\<rparr>)
        Map.empty
        (exampleUser ''u1'' ''ann@contoso.com''
           (Some \<lparr>lastSuccessfulSignInDateTime = Some ''2024-05-01T08:30:00Z''\<rparr>))
        True \<lparr>totalUsers = 1, processed = 0, errors = 0, startTime = None\<rparr>))
     = Some ''2024-05-01T08:30:00Z''
   \<and> map_option Last_successful_sign_in
     (snd (processUser (\<lambda>uid. Inr mfaNoDataInfo) (\<lambda>uid. Inr \<lparr>groups = [], count_grp = 0\<rparr>)
        Map.empty (exampleUser ''u1'' ''ann@contoso.com'' None)
        True \<lparr>totalUsers = 1, processed = 0, errors = 0, startTime = None\<rparr>))
     = Some ''No sign in''"
proof -
  let ?mfa = "\<lambda>uid :: string. Inr mfaNoDataInfo :: ErrorWithStatus + MfaInfo"
  let ?grp = "\<lambda>uid :: string. Inr \<lparr>groups = [], count_grp = 0\<rparr> :: ErrorWithStatus + SecurityGroupInfo"
  let ?cat = "Map.empty :: string \<rightharpoonup> LicenseSku"
  let ?u = "exampleUser ''u1'' ''ann@contoso.com''
           (Some \<lparr>lastSuccessfulSignInDateTime = Some ''2024-05-01T08:30:00Z''\<rparr>)"
  let ?v = "exampleUser ''u1'' ''ann@contoso.com'' None"
  let ?st = "\<lparr>totalUsers = 1, processed = 0, errors = 0, startTime = None\<rparr>"
  have ok: "\<not> enrichmentFails ?mfa ?grp w" for w by (simp add: enrichmentFails_def)
  have tu: "signInTimestamp ?u = Some ''2024-05-01T08:30:00Z''"
    by (simp add: signInTimestamp_def exampleUser_def)
  have tv: "signInTimestamp ?v = None"
    by (simp add: signInTimestamp_def exampleUser_def)
  obtain r1 where r1: "processUser ?mfa ?grp ?cat ?u False ?st = (?st\<lparr>processed := processed ?st + 1\<rparr>, Some r1)"
    using processUser_some [OF ok] by blast
  obtain r2 where r2: "processUser ?mfa ?grp ?cat ?u True ?st = (?st\<lparr>processed := processed ?st + 1\<rparr>, Some r2)"
    using processUser_some [OF ok] by blast
  obtain r3 where r3: "processUser ?mfa ?grp ?cat ?v True ?st = (?st\<lparr>processed := processed ?st + 1\<rparr>, Some r3)"
    using processUser_some [OF ok] by blast
  have c1: "Last_successful_sign_in r1 = ''No Microsoft Entra ID Premium license''"
    using processUser_lastSignIn [of ?mfa ?grp ?cat ?u False ?st _ r1] r1 by simp
  have c2: "Last_successful_sign_in r2 = ''2024-05-01T08:30:00Z''"
    using processUser_lastSignIn [of ?mfa ?grp ?cat ?u True ?st _ r2 "''2024-05-01T08:30:00Z''"] r2 tu
    by simp
  have c3: "Last_successful_sign_in r3 = ''No sign in''"
    using processUser_lastSignIn [of ?mfa ?grp ?cat ?v True ?st _ r3] r3 tv by simp
  show ?thesis
    unfolding r1 r2 r3 using c1 c2 c3 by simp
qed

text \<open>
  Claim C9, as the code has it. For every user whose record is produced, the domain-name
  field is absent when the principal name is missing or contains no \<open>@\<close>; otherwise it
  is the part of the principal name between its first \<open>@\<close> and its next \<open>@\<close> (or the
  end of the name). For a principal name with exactly one \<open>@\<close> that is the substring
  after the \<open>@\<close>.
\<close>

theorem processUser_domainName:
  "processUser mfa grp cat u hp st = (st', Some r) \<longrightarrow>
     (userPrincipalName u = None \<longrightarrow> Domain_name r = None)
   \<and> (userPrincipalName u = Some upn \<and> CHR ''@'' \<notin> set upn \<longrightarrow> Domain_name r = None)
   \<and> (userPrincipalName u = Some upn \<and> CHR ''@'' \<in> set upn \<longrightarrow>
        Domain_name r = Some (takeWhile (\<lambda>c. c \<noteq> CHR ''@'') (afterAt upn)))
   \<and> (userPrincipalName u = Some upn \<and> count_list upn CHR ''@'' = 1 \<longrightarrow>
        Domain_name r = Some (afterAt upn))"
proof
  assume "processUser mfa grp cat u hp st = (st', Some r)"
  then have f: "Domain_name r =
               (case userPrincipalName u of
                  None \<Rightarrow> None
                | Some upn \<Rightarrow>
                    if includes_str upn ''@'' then at_index (split_on CHR ''@'' upn) 1 else None)"
    by (rule record_Domain_name)
  show "(userPrincipalName u = None \<longrightarrow> Domain_name r = None)
   \<and> (userPrincipalName u = Some upn \<and> CHR ''@'' \<notin> set upn \<longrightarrow> Domain_name r = None)
   \<and> (userPrincipalName u = Some upn \<and> CHR ''@'' \<in> set upn \<longrightarrow>
        Domain_name r = Some (takeWhile (\<lambda>c. c \<noteq> CHR ''@'') (afterAt upn)))
   \<and> (userPrincipalName u = Some upn \<and> count_list upn CHR ''@'' = 1 \<longrightarrow>
        Domain_name r = Some (afterAt upn))"
    by (rule domain_cases [OF f])
qed

theorem processUser_domainName_witness:
  "map_option Domain_name
     (snd (processUser (\<lambda>uid. Inr mfaNoDataInfo) (\<lambda>uid. Inr \<lparr>groups = [], count_grp = 0\<rparr>)
        Map.empty (exampleUser ''u1'' ''ann@contoso.com'' None)
        False \<lparr>totalUsers = 1, processed = 0, errors = 0, startTime = None\<rparr>))
     = Some (Some ''contoso.com'')
   \<and> map_option Domain_name
     (snd (processUser (\<lambda>uid. Inr mfaNoDataInfo) (\<lambda>uid. Inr \<lparr>groups = [], count_grp = 0\<rparr>)
        Map.empty (exampleUser ''u2'' ''local-account'' None)
        False \<lparr>totalUsers = 1, processed = 0, errors = 0, startTime = None\<rparr>))
     = Some None"
proof -
  let ?mfa = "\<lambda>uid :: string. Inr mfaNoDataInfo :: ErrorWithStatus + MfaInfo"
  let ?grp = "\<lambda>uid :: string. Inr \<lparr>groups = [], count_grp = 0\<rparr> :: ErrorWithStatus + SecurityGroupInfo"
  let ?cat = "Map.empty :: string \<rightharpoonup> LicenseSku"
  let ?u = "exampleUser ''u1'' ''ann@contoso.com'' None"
  let ?v = "exampleUser ''u2'' ''local-account'' None"
  let ?st = "\<lparr>totalUsers = 1, processed = 0, errors = 0, startTime = None\<rparr>"
  have ok: "\<not> enrichmentFails ?mfa ?grp w" for w by (simp add: enrichmentFails_def)
  have pu: "userPrincipalName ?u = Some ''ann@contoso.com''" by (simp add: exampleUser_def)
  have pv: "userPrincipalName ?v = Some ''local-account''" by (simp add: exampleUser_def)
  have one: "count_list ''ann@contoso.com'' CHR ''@'' = 1" by simp
  have none: "CHR ''@'' \<notin> set ''local-account''" by simp
  have after: "afterAt ''ann@contoso.com'' = ''contoso.com''" by (simp add: afterAt_def)
  obtain r1 where r1: "processUser ?mfa ?grp ?cat ?u False ?st = (?st\<lparr>processed := processed ?st + 1\<rparr>, Some r1)"
    using processUser_some [OF ok] by blast
  obtain r2 where r2: "processUser ?mfa ?grp ?cat ?v False ?st = (?st\<lparr>processed := processed ?st + 1\<rparr>, Some r2)"
    using processUser_some [OF ok] by blast
  from processUser_domainName [of ?mfa ?grp ?cat ?u False ?st _ r1 "''ann@contoso.com''"] r1 pu one
  have c1: "Domain_name r1 = Some (afterAt ''ann@contoso.com'')" by blast
  from processUser_domainName [of ?mfa ?grp ?cat ?v False ?st _ r2 "''local-account''"] r2 pv none
  have c2: "Domain_name r2 = None" by blast
  show ?thesis
    unfolding r1 r2 using c1 c2 after by simp
qed

text \<open>
  The claim as stated fails for a principal name with more than one \<open>@\<close>: for
  \<open>a@b@c\<close> the domain-name field is \<open>b\<close>, which is neither the substring after the
  first \<open>@\<close> (\<open>b@c\<close>) nor the substring after the last one (\<open>c\<close>).
\<close>

theorem processUser_domainName_counterexample:
  "map_option Domain_name
       (snd (processUser (\<lambda>uid. Inr mfaNoDataInfo) (\<lambda>uid. Inr \<lparr>groups = [], count_grp = 0\<rparr>)
          Map.empty (exampleUser ''u1'' ''a@b@c'' None)
          False \<lparr>totalUsers = 1, processed = 0, errors = 0, startTime = None\<rparr>))
     = Some (Some ''b'')
   \<and> afterAt ''a@b@c'' = ''b@c''
   \<and> afterLastAt ''a@b@c'' = ''c''"
  by (simp add: processUser_def exampleUser_def Let_def at_index_def afterAt_def afterLastAt_def)

text \<open>
  Claim C10. For every user id and every behaviour of the underlying call, also a failing
  one, the count that \<open>getUserSecurityGroups\<close> reports is the length of its list of
  group names; so in a record produced with this lookup, the security-group count is
  the number of names joined into the security-groups field.
\<close>

theorem securityGroups_count_is_length:
  "count_grp (getUserSecurityGroups get opts uid)
     = length (groups (getUserSecurityGroups get opts uid))
   \<and> (processUser mfa (\<lambda>uid. Inr (getUserSecurityGroups get opts uid)) cat u hp st
         = (st', Some r) \<longrightarrow>
        Security_Groups r = join ''; '' (groups (getUserSecurityGroups get opts (user_id u)))
        \<and> Security_Group_Count r
             = length (groups (getUserSecurityGroups get opts (user_id u))))"
proof (intro conjI impI)
  show "count_grp (getUserSecurityGroups get opts uid)
     = length (groups (getUserSecurityGroups get opts uid))"
    by (rule groups_count)
next
  assume a: "processUser mfa (\<lambda>uid. Inr (getUserSecurityGroups get opts uid)) cat u hp st
         = (st', Some r)"
  obtain g where g: "Inr (getUserSecurityGroups get opts (user_id u)) = (Inr g :: ErrorWithStatus + SecurityGroupInfo)"
    and j: "Security_Groups r = join ''; '' (groups g)"
    and c: "Security_Group_Count r = count_grp g"
    using record_Security_Groups [OF a] by blast
  have eq: "g = getUserSecurityGroups get opts (user_id u)" using g by simp
  show "Security_Groups r = join ''; '' (groups (getUserSecurityGroups get opts (user_id u)))"
    using j eq by simp
  show "Security_Group_Count r = length (groups (getUserSecurityGroups get opts (user_id u)))"
    using c eq groups_count [of get opts "user_id u"] by simp
qed

theorem securityGroups_count_is_length_witness:
  "map_option Security_Group_Count
     (snd (processUser (\<lambda>uid. Inr mfaNoDataInfo)
        (\<lambda>uid. Inr (getUserSecurityGroups
           (\<lambda>path i. Inr \<lparr>memberOf_value = Some
              [\<lparr>member_odata_type = Some ''#microsoft.graph.group'',
                securityEnabled = Some True, member_displayName = ''Staff''\<rparr>,
               \<lparr>member_odata_type = Some ''#microsoft.graph.group'',
                securityEnabled = Some True, member_displayName = ''Admins''\<rparr>]\<rparr>)
           \<lparr>maxRetries = 3, retryDelayMs = 2000\<rparr> uid))
        Map.empty (exampleUser ''u1'' ''ann@contoso.com'' None)
        False \<lparr>totalUsers = 1, processed = 0, errors = 0, startTime = None\<rparr>))
     = Some 2
   \<and> map_option Security_Groups
     (snd (processUser (\<lambda>uid. Inr mfaNoDataInfo)
        (\<lambda>uid. Inr (getUserSecurityGroups
           (\<lambda>path i. Inr \<lparr>memberOf_value = Some
              [\<lparr>member_odata_type = Some ''#microsoft.graph.group'',
                securityEnabled = Some True, member_displayName = ''Staff''\<rparr>,
               \<lparr>member_odata_type = Some ''#microsoft.graph.group'',
                securityEnabled = Some True, member_displayName = ''Admins''\<rparr>]\<rparr>)
           \<lparr>maxRetries = 3, retryDelayMs = 2000\<rparr> uid))
        Map.empty (exampleUser ''u1'' ''ann@contoso.com'' None)
        False \<lparr>totalUsers = 1, processed = 0, errors = 0, startTime = None\<rparr>))
     = Some ''Admins; Staff''"
proof -
  let ?mfa = "\<lambda>uid :: string. Inr mfaNoDataInfo :: ErrorWithStatus + MfaInfo"
  let ?a = "\<lparr>member_odata_type = Some ''#microsoft.graph.group'',
                securityEnabled = Some True, member_displayName = ''Staff''\<rparr>"
  let ?b = "\<lparr>member_odata_type = Some ''#microsoft.graph.group'',
                securityEnabled = Some True, member_displayName = ''Admins''\<rparr>"
  let ?resp = "\<lparr>memberOf_value = Some [?a, ?b]\<rparr>"
  let ?get = "\<lambda>(path :: string) (i :: nat). Inr ?resp :: ErrorWithStatus + MemberOfResponse"
  let ?opts = "\<lparr>maxRetries = 3, retryDelayMs = 2000\<rparr>"
  let ?grp = "\<lambda>uid. Inr (getUserSecurityGroups ?get ?opts uid) :: ErrorWithStatus + SecurityGroupInfo"
  let ?cat = "Map.empty :: string \<rightharpoonup> LicenseSku"
  let ?u = "exampleUser ''u1'' ''ann@contoso.com'' None"
  let ?st = "\<lparr>totalUsers = 1, processed = 0, errors = 0, startTime = None\<rparr>"
  have ok: "\<not> enrichmentFails ?mfa ?grp ?u" by (simp add: enrichmentFails_def)
  have settled: "settled (retryWithBackoff (?get (memberOfPath (user_id ?u))) ?opts) = Inr ?resp"
    by (simp add: retryWithBackoff_def retryLoop.simps)
  have lt: "''Admins'' < ''Staff''" by (simp add: less_char_def)
  have names: "groups (getUserSecurityGroups ?get ?opts (user_id ?u)) = [''Admins'', ''Staff'']"
    unfolding groups_ok [OF settled, of "[?a, ?b]", simplified]
    using lt by (simp add: isSecurityGroup_def less_le_not_le)
  obtain r where r: "processUser ?mfa ?grp ?cat ?u False ?st = (?st\<lparr>processed := processed ?st + 1\<rparr>, Some r)"
    using processUser_some [OF ok] by blast
  from securityGroups_count_is_length [where get = ?get and opts = ?opts and mfa = ?mfa
      and cat = ?cat and u = ?u and hp = False and st = ?st and r = r] r
  have "Security_Groups r = join ''; '' (groups (getUserSecurityGroups ?get ?opts (user_id ?u)))
        \<and> Security_Group_Count r
             = length (groups (getUserSecurityGroups ?get ?opts (user_id ?u)))"
    by blast
  then have "Security_Groups r = ''Admins; Staff'' \<and> Security_Group_Count r = 2"
    unfolding names by simp
  then show ?thesis unfolding r by simp
qed

section \<open>The fan-out over all users\<close>

lemma fold_settleTask:
  assumes "\<forall>i \<in> set order. i < length users" and "length slots = length users"
  shows "errors (fst (fold (settleTask mfa grp cat users hp) order (st, slots)))
           = errors st + length (filter (\<lambda>i. enrichmentFails mfa grp (users ! i)) order)
       \<and> processed (fst (fold (settleTask mfa grp cat users hp) order (st, slots)))
           = processed st + length (filter (\<lambda>i. \<not> enrichmentFails mfa grp (users ! i)) order)
       \<and> totalUsers (fst (fold (settleTask mfa grp cat users hp) order (st, slots))) = totalUsers st
       \<and> startTime (fst (fold (settleTask mfa grp cat users hp) order (st, slots))) = startTime st
       \<and> length (snd (fold (settleTask mfa grp cat users hp) order (st, slots))) = length users
       \<and> (\<forall>j < length users.
             snd (fold (settleTask mfa grp cat users hp) order (st, slots)) ! j
               = (if j \<in> set order then Some (recordOf mfa grp cat hp (users ! j)) else slots ! j))"
  using assms
proof (induction order arbitrary: st slots)
  case Nil
  then show ?case by simp
next
  case (Cons i order)
  let ?st = "fst (processUser mfa grp cat (users ! i) hp st)"
  let ?slots = "slots[i := Some (recordOf mfa grp cat hp (users ! i))]"
  have i: "i < length users" using Cons.prems(1) by simp
  have step: "settleTask mfa grp cat users hp i (st, slots) = (?st, ?slots)"
    using i by (simp add: settleTask_def Let_def snd_processUser)
  have rest: "\<forall>i \<in> set order. i < length users" using Cons.prems(1) by simp
  have len: "length ?slots = length users" using Cons.prems(2) by simp
  note IH = Cons.IH [OF rest len, of ?st]
  have upd: "\<forall>j < length users. ?slots ! j =
               (if j = i then Some (recordOf mfa grp cat hp (users ! i)) else slots ! j)"
    using Cons.prems(2) by (simp add: nth_list_update)
  show ?case
    unfolding fold_Cons comp_apply step
    using IH upd by (auto simp: fst_processUser)
qed

lemma filter_perm_upt:
  assumes "mset order = mset [0..<length users]"
  shows "length (filter (\<lambda>i. P (users ! i)) order) = length (filter P users)"
proof -
  have "length (filter (\<lambda>i. P (users ! i)) order)
          = size (filter_mset (\<lambda>i. P (users ! i)) (mset order))"
    by (metis mset_filter size_mset)
  also have "\<dots> = length (filter (\<lambda>i. P (users ! i)) [0..<length users])"
    unfolding assms by (metis mset_filter size_mset)
  also have "\<dots> = length (filter P (map (\<lambda>i. users ! i) [0..<length users]))"
    by (simp add: filter_map comp_def)
  also have "map (\<lambda>i. users ! i) [0..<length users] = users"
    by (rule map_nth)
  finally show ?thesis .
qed

lemma map_filter_slots:
  "List.map_filter (\<lambda>slot. case slot of None \<Rightarrow> None | Some r \<Rightarrow> r) (map (\<lambda>u. Some (f u)) us)
     = List.map_filter f us"
  by (induction us) (auto simp: List.map_filter_simps split: option.splits)

text \<open>
  Whatever the completion order, the run ends with the counters of the failing and of
  the succeeding users and with the records of the users in input order.
\<close>

lemma processAllUsers_run:
  assumes "mset order = mset [0..<length users]"
  shows "processAllUsers mfa grp cat order now users hp st
           = (\<lparr>totalUsers = length users,
               processed = length (filter (\<lambda>u. \<not> enrichmentFails mfa grp u) users),
               errors = length (filter (enrichmentFails mfa grp) users),
               startTime = Some now\<rparr>,
              List.map_filter (recordOf mfa grp cat hp) users)"
proof -
  let ?st = "st\<lparr>totalUsers := length users, processed := 0, errors := 0, startTime := Some now\<rparr>"
  let ?run = "fold (settleTask mfa grp cat users hp) order (?st, replicate (length users) None)"
  have so: "set order = {0..<length users}"
    using assms by (metis mset_eq_setD set_upt)
  then have bound: "\<forall>i \<in> set order. i < length users" by simp
  note F = fold_settleTask [OF bound, of "replicate (length users) None" mfa grp cat hp ?st, simplified]
  have slots: "snd ?run = map (\<lambda>u. Some (recordOf mfa grp cat hp u)) users"
    using F so by (intro nth_equalityI) auto
  have stats: "fst ?run = \<lparr>totalUsers = length users,
               processed = length (filter (\<lambda>u. \<not> enrichmentFails mfa grp u) users),
               errors = length (filter (enrichmentFails mfa grp) users),
               startTime = Some now\<rparr>"
    using F filter_perm_upt [OF assms, of "enrichmentFails mfa grp"]
      filter_perm_upt [OF assms, of "\<lambda>u. \<not> enrichmentFails mfa grp u"]
    by (intro ProcessingStats.equality) auto
  show ?thesis
    unfolding processAllUsers_def Let_def slots stats map_filter_slots by simp
qed

lemma length_filter_survivors:
  "length (filter (\<lambda>u. \<not> P u) us) = length us - length (filter P us)"
  using sum_length_filter_compl [of P us] by simp

lemma length_records:
  "length (List.map_filter (recordOf mfa grp cat hp) users)
     = length users - length (filter (enrichmentFails mfa grp) users)"
proof -
  have "length (List.map_filter (recordOf mfa grp cat hp) users)
          = length (filter (\<lambda>u. \<not> enrichmentFails mfa grp u) users)"
    by (simp add: List.map_filter_def recordOf_None)
  then show ?thesis by (simp add: length_filter_survivors)
qed

lemma records_of_survivors:
  "List.map_filter (recordOf mfa grp cat hp) (filter (\<lambda>u. \<not> enrichmentFails mfa grp u) users)
     = List.map_filter (recordOf mfa grp cat hp) users"
proof (induction users)
  case Nil
  show ?case by simp
next
  case (Cons u users)
  show ?case
  proof (cases "enrichmentFails mfa grp u")
    case True
    then have "recordOf mfa grp cat hp u = None" by (simp add: recordOf_None)
    then show ?thesis using True Cons by (simp add: List.map_filter_simps)
  next
    case False
    then show ?thesis using Cons by (simp add: List.map_filter_simps split: option.splits)
  qed
qed

lemma record_ids:
  "map ID (List.map_filter (recordOf mfa grp cat hp) users)
     = map user_id (filter (\<lambda>u. \<not> enrichmentFails mfa grp u) users)"
proof (induction users)
  case Nil
  show ?case by (simp add: List.map_filter_simps)
next
  case (Cons u users)
  show ?case
  proof (cases "recordOf mfa grp cat hp u")
    case None
    then have "enrichmentFails mfa grp u" by (simp add: recordOf_None)
    then show ?thesis using None Cons by (simp add: List.map_filter_simps)
  next
    case (Some r)
    then have "\<not> enrichmentFails mfa grp u" using recordOf_None [of mfa grp cat hp u] by simp
    moreover have "ID r = user_id u" using Some by (rule recordOf_ID)
    ultimately show ?thesis using Some Cons by (simp add: List.map_filter_simps)
  qed
qed

text \<open>
  Claim C2. Let \<open>k\<close> be the number of users of the input list whose enrichment fails
  (a lookup rejects). For every input list of \<open>M\<close> users and every completion order of
  the tasks, \<open>processAllUsers\<close> resolves with exactly \<open>M - k\<close> records, and when it
  returns \<open>errors = k\<close>, \<open>processed = M - k\<close> and \<open>totalUsers = M\<close>. A failing user
  adds one to \<open>errors\<close>, leaves \<open>processed\<close> alone and yields no record; a succeeding
  user adds one to \<open>processed\<close> and yields the record it would yield alone. The
  records returned are those of the same run without the failing users: a failure
  alters no other user's record.
\<close>

theorem processAllUsers_failure_isolation:
  assumes "mset order = mset [0..<length users]"
  shows "length (snd (processAllUsers mfa grp cat order now users hp st))
           = length users - length (filter (enrichmentFails mfa grp) users)
       \<and> errors (fst (processAllUsers mfa grp cat order now users hp st))
           = length (filter (enrichmentFails mfa grp) users)
       \<and> processed (fst (processAllUsers mfa grp cat order now users hp st))
           = length users - length (filter (enrichmentFails mfa grp) users)
       \<and> totalUsers (fst (processAllUsers mfa grp cat order now users hp st)) = length users
       \<and> snd (processAllUsers mfa grp cat order now users hp st)
           = List.map_filter (recordOf mfa grp cat hp) users
       \<and> snd (processAllUsers mfa grp cat order now users hp st)
           = snd (processAllUsers mfa grp cat
                    [0..<length (filter (\<lambda>u. \<not> enrichmentFails mfa grp u) users)] now
                    (filter (\<lambda>u. \<not> enrichmentFails mfa grp u) users) hp st)
       \<and> (enrichmentFails mfa grp u \<longrightarrow>
            processUser mfa grp cat u hp st1 = (st1\<lparr>errors := errors st1 + 1\<rparr>, None))
       \<and> (\<not> enrichmentFails mfa grp u \<longrightarrow>
            processUser mfa grp cat u hp st1
              = (st1\<lparr>processed := processed st1 + 1\<rparr>, recordOf mfa grp cat hp u)
            \<and> recordOf mfa grp cat hp u \<noteq> None)"
proof -
  note run = processAllUsers_run [OF assms, of mfa grp cat now hp st]
  have survivors:
    "snd (processAllUsers mfa grp cat
            [0..<length (filter (\<lambda>u. \<not> enrichmentFails mfa grp u) users)] now
            (filter (\<lambda>u. \<not> enrichmentFails mfa grp u) users) hp st)
       = List.map_filter (recordOf mfa grp cat hp) users"
    by (simp add: processAllUsers_run records_of_survivors)
  have one: "length (snd (processAllUsers mfa grp cat order now users hp st))
           = length users - length (filter (enrichmentFails mfa grp) users)"
    unfolding run by (simp add: length_records)
  have two: "errors (fst (processAllUsers mfa grp cat order now users hp st))
           = length (filter (enrichmentFails mfa grp) users)"
    unfolding run by simp
  have three: "processed (fst (processAllUsers mfa grp cat order now users hp st))
           = length users - length (filter (enrichmentFails mfa grp) users)"
    unfolding run by (simp add: length_filter_survivors)
  have four: "totalUsers (fst (processAllUsers mfa grp cat order now users hp st)) = length users"
    unfolding run by simp
  have five: "snd (processAllUsers mfa grp cat order now users hp st)
           = List.map_filter (recordOf mfa grp cat hp) users"
    unfolding run by simp
  show ?thesis
    using one two three four five survivors
      processUser_fails [of mfa grp u cat hp st1]
      processUser_succeeds [of mfa grp u cat hp st1]
    by simp
qed

theorem processAllUsers_failure_isolation_witness:
  "length (snd (processAllUsers
      (\<lambda>uid. if uid = ''u2'' then Inl \<lparr>statusCode = Some 500, message = Some ''MFA down''\<rparr>
              else Inr mfaNoDataInfo)
      (\<lambda>uid. Inr \<lparr>groups = [], count_grp = 0\<rparr>) Map.empty [2, 0, 1] 1700000000000
      [exampleUser ''u1'' ''ann@contoso.com'' None, exampleUser ''u2'' ''bob@contoso.com'' None,
       exampleUser ''u3'' ''cyd@contoso.com'' None]
      False \<lparr>totalUsers = 0, processed = 0, errors = 0, startTime = None\<rparr>)) = 2
   \<and> errors (fst (processAllUsers
      (\<lambda>uid. if uid = ''u2'' then Inl \<lparr>statusCode = Some 500, message = Some ''MFA down''\<rparr>
              else Inr mfaNoDataInfo)
      (\<lambda>uid. Inr \<lparr>groups = [], count_grp = 0\<rparr>) Map.empty [2, 0, 1] 1700000000000
      [exampleUser ''u1'' ''ann@contoso.com'' None, exampleUser ''u2'' ''bob@contoso.com'' None,
       exampleUser ''u3'' ''cyd@contoso.com'' None]
      False \<lparr>totalUsers = 0, processed = 0, errors = 0, startTime = None\<rparr>)) = 1
   \<and> processed (fst (processAllUsers
      (\<lambda>uid. if uid = ''u2'' then Inl \<lparr>statusCode = Some 500, message = Some ''MFA down''\<rparr>
              else Inr mfaNoDataInfo)
      (\<lambda>uid. Inr \<lparr>groups = [], count_grp = 0\<rparr>) Map.empty [2, 0, 1] 1700000000000
      [exampleUser ''u1'' ''ann@contoso.com'' None, exampleUser ''u2'' ''bob@contoso.com'' None,
       exampleUser ''u3'' ''cyd@contoso.com'' None]
      False \<lparr>totalUsers = 0, processed = 0, errors = 0, startTime = None\<rparr>)) = 2"
proof -
  let ?mfa = "\<lambda>uid. if uid = ''u2''
                    then Inl \<lparr>statusCode = Some 500, message = Some ''MFA down''\<rparr>
                    else (Inr mfaNoDataInfo :: ErrorWithStatus + MfaInfo)"
  let ?grp = "\<lambda>uid :: string. Inr \<lparr>groups = [], count_grp = 0\<rparr> :: ErrorWithStatus + SecurityGroupInfo"
  let ?cat = "Map.empty :: string \<rightharpoonup> LicenseSku"
  let ?users = "[exampleUser ''u1'' ''ann@contoso.com'' None,
                 exampleUser ''u2'' ''bob@contoso.com'' None,
                 exampleUser ''u3'' ''cyd@contoso.com'' None]"
  let ?st = "\<lparr>totalUsers = 0, processed = 0, errors = 0, startTime = None\<rparr>"
  have perm: "mset [2, 0, 1] = mset [0..<length ?users]"
    by (simp add: upt_rec)
  have k: "length (filter (enrichmentFails ?mfa ?grp) ?users) = 1"
    by (simp add: enrichmentFails_def exampleUser_def)
  note T = processAllUsers_failure_isolation [OF perm, of ?mfa ?grp ?cat 1700000000000 False ?st]
  note records = T [THEN conjunct1, unfolded k]
  note failed = T [THEN conjunct2, THEN conjunct1, unfolded k]
  note succeeded = T [THEN conjunct2, THEN conjunct2, THEN conjunct1, unfolded k]
  have three: "length ?users - 1 = 2" by simp
  show ?thesis
    using records failed succeeded unfolding three by blast
qed

text \<open>
  Claim C3. For every input list and every completion order of the per-user tasks, the
  array returned by \<open>processAllUsers\<close> is the same: the records of the succeeding
  users, their ids in the order in which those users stand in the input list.
\<close>

theorem processAllUsers_order_preserved:
  assumes "mset order = mset [0..<length users]" and "mset order' = mset [0..<length users]"
  shows "snd (processAllUsers mfa grp cat order now users hp st)
           = snd (processAllUsers mfa grp cat order' now' users hp st')
       \<and> map ID (snd (processAllUsers mfa grp cat order now users hp st))
           = map user_id (filter (\<lambda>u. \<not> enrichmentFails mfa grp u) users)
       \<and> snd (processAllUsers mfa grp cat order now users hp st)
           = List.map_filter (recordOf mfa grp cat hp) users"
  unfolding processAllUsers_run [OF assms(1)] processAllUsers_run [OF assms(2)]
  by (simp add: record_ids)

theorem processAllUsers_order_preserved_witness:
  "map ID (snd (processAllUsers
      (\<lambda>uid. if uid = ''u2'' then Inl \<lparr>statusCode = Some 500, message = Some ''MFA down''\<rparr>
              else Inr mfaNoDataInfo)
      (\<lambda>uid. Inr \<lparr>groups = [], count_grp = 0\<rparr>) Map.empty [2, 0, 1] 1700000000000
      [exampleUser ''u1'' ''ann@contoso.com'' None, exampleUser ''u2'' ''bob@contoso.com'' None,
       exampleUser ''u3'' ''cyd@contoso.com'' None]
      False \<lparr>totalUsers = 0, processed = 0, errors = 0, startTime = None\<rparr>))
     = [''u1'', ''u3'']"
proof -
  let ?mfa = "\<lambda>uid. if uid = ''u2''
                    then Inl \<lparr>statusCode = Some 500, message = Some ''MFA down''\<rparr>
                    else (Inr mfaNoDataInfo :: ErrorWithStatus + MfaInfo)"
  let ?grp = "\<lambda>uid :: string. Inr \<lparr>groups = [], count_grp = 0\<rparr> :: ErrorWithStatus + SecurityGroupInfo"
  let ?cat = "Map.empty :: string \<rightharpoonup> LicenseSku"
  let ?users = "[exampleUser ''u1'' ''ann@contoso.com'' None,
                 exampleUser ''u2'' ''bob@contoso.com'' None,
                 exampleUser ''u3'' ''cyd@contoso.com'' None]"
  let ?st = "\<lparr>totalUsers = 0, processed = 0, errors = 0, startTime = None\<rparr>"
  have perm: "mset [2, 0, 1] = mset [0..<length ?users]"
    by (simp add: upt_rec)
  have perm': "mset [0, 1, 2] = mset [0..<length ?users]"
    by (simp add: upt_rec)
  have ids: "map user_id (filter (\<lambda>u. \<not> enrichmentFails ?mfa ?grp u) ?users) = [''u1'', ''u3'']"
    by (simp add: enrichmentFails_def exampleUser_def)
  note T = processAllUsers_order_preserved [OF perm perm', of ?mfa ?grp ?cat 1700000000000 False ?st
        1700000000000 ?st]
  show ?thesis
    by (rule T [THEN conjunct2, THEN conjunct1, unfolded ids])
qed

end
